theory Spec2Isabelle
  imports Main "HOL-Library.Word" "HOL-Library.Sublist"
begin

section \<open>JavaScript strings\<close>

text \<open>
  A JavaScript string is a sequence of 16-bit code units.  Literals of the source are
  written \<open>u ''...''\<close>; the line feed and the single quote, which an Isabelle literal
  cannot hold, are the constants \<open>LF\<close> and \<open>SQ\<close>.
\<close>

type_synonym jschar = "16 word"
type_synonym jsstring = "jschar list"

definition u :: "string \<Rightarrow> jsstring" where
  "u s = map of_char s"

definition LF :: jschar where "LF = 0x0A"
definition CR :: jschar where "CR = 0x0D"
definition SQ :: jschar where "SQ = 0x27"

text \<open>\<open>s.split(sep)\<close> for a string separator, and \<open>parts.join(sep)\<close>.\<close>

function split_ne :: "jsstring \<Rightarrow> jsstring \<Rightarrow> jsstring list" where
  "split_ne sep [] = [[]]"
| "split_ne sep (c # cs) =
     (if sep \<noteq> [] \<and> prefix sep (c # cs)
      then [] # split_ne sep (drop (length sep) (c # cs))
      else (case split_ne sep cs of
              [] \<Rightarrow> [[c]]
            | l # ls \<Rightarrow> (c # l) # ls))"
  by pat_completeness auto
termination
  by (relation "measure (\<lambda>(sep, s). length s)") (auto simp: neq_Nil_conv)

definition split_str :: "jsstring \<Rightarrow> jsstring \<Rightarrow> jsstring list" where
  "split_str sep s = (if sep = [] then map (\<lambda>c. [c]) s else split_ne sep s)"

fun join_str :: "jsstring \<Rightarrow> jsstring list \<Rightarrow> jsstring" where
  "join_str sep [] = []"
| "join_str sep [x] = x"
| "join_str sep (x # y # ys) = x @ sep @ join_str sep (y # ys)"

section \<open>The test-content generator\<close>

text \<open>
  \<open>generateTestContent\<close> (constants.ts, lines 223 to 229): five template pieces
  concatenated, with \<open>importPath\<close> and \<open>className\<close> interpolated as they are.
\<close>

definition generateTestContent :: "jsstring \<Rightarrow> jsstring \<Rightarrow> jsstring" where
  "generateTestContent className importPath =
     (u ''import '' @ [SQ] @ importPath @ [SQ] @ u '';'' @ [LF, LF]) @
     (u ''void main() {'' @ [LF]) @
     (u ''  group('' @ [SQ] @ className @ [SQ] @ u '', () {'' @ [LF, LF]) @
     (u ''  });'' @ [LF]) @
     (u ''}'' @ [LF])"

text \<open>The lines of a text: the pieces between line feeds, the last one unterminated.\<close>

definition text_lines :: "jsstring \<Rightarrow> jsstring list" where
  "text_lines s = split_str [LF] s"

definition terminated_line_count :: "jsstring \<Rightarrow> nat" where
  "terminated_line_count s = length (text_lines s) - 1"

definition nonblank_line_count :: "jsstring \<Rightarrow> nat" where
  "nonblank_line_count s = length (filter (\<lambda>l. l \<noteq> []) (text_lines s))"

definition first_line :: "jsstring \<Rightarrow> jsstring" where
  "first_line s = (case text_lines s of [] \<Rightarrow> [] | l # _ \<Rightarrow> l)"

section \<open>The path module of the host\<close>

text \<open>
  The source calls Node.js's \<open>path\<close> module, which is \<open>path.posix\<close> or
  \<open>path.win32\<close> according to the host.  The module is a parameter of every function
  that uses it; \<open>posix cwd\<close> below is \<open>path.posix\<close> in a process whose working
  directory is \<open>cwd\<close> (the directory \<open>path.resolve\<close> puts in front of a relative
  path).  \<open>path.win32\<close> is not modelled.
\<close>

record path_module =
  sep :: jsstring
  join :: "jsstring list \<Rightarrow> jsstring"
  dirname :: "jsstring \<Rightarrow> jsstring"
  relative :: "jsstring \<Rightarrow> jsstring \<Rightarrow> jsstring"
  basename :: "jsstring \<Rightarrow> jsstring \<Rightarrow> jsstring"
  extname :: "jsstring \<Rightarrow> jsstring"

definition SLASH :: jschar where "SLASH = 0x2F"
definition DOT :: jschar where "DOT = 0x2E"

text \<open>
  \<open>normalizeString\<close>: the segments between slashes are pushed on a stack; an empty segment
  and \<open>.\<close> are skipped; \<open>..\<close> removes the last segment unless there is none or it is
  itself \<open>..\<close>, in which case \<open>..\<close> is kept when the path may climb above its root.
\<close>

definition norm_step :: "bool \<Rightarrow> jsstring list \<Rightarrow> jsstring \<Rightarrow> jsstring list" where
  "norm_step allowAboveRoot res seg =
     (if seg = [] \<or> seg = [DOT] then res
      else if seg = [DOT, DOT] then
        (if res \<noteq> [] \<and> last res \<noteq> [DOT, DOT] then butlast res
         else if allowAboveRoot then res @ [[DOT, DOT]]
         else res)
      else res @ [seg])"

definition normalizeString :: "jsstring \<Rightarrow> bool \<Rightarrow> jsstring" where
  "normalizeString path allowAboveRoot =
     join_str [SLASH] (foldl (norm_step allowAboveRoot) [] (split_str [SLASH] path))"

definition posix_normalize :: "jsstring \<Rightarrow> jsstring" where
  "posix_normalize path =
     (if path = [] then [DOT]
      else
        let isAbsolute = (hd path = SLASH);
            trailingSeparator = (last path = SLASH);
            p = normalizeString path (\<not> isAbsolute)
        in if p = [] then
             (if isAbsolute then [SLASH]
              else if trailingSeparator then [DOT, SLASH] else [DOT])
           else
             let p' = (if trailingSeparator then p @ [SLASH] else p)
             in if isAbsolute then SLASH # p' else p')"

definition posix_join :: "jsstring list \<Rightarrow> jsstring" where
  "posix_join args =
     (let parts = filter (\<lambda>arg. arg \<noteq> []) args
      in if parts = [] then [DOT] else posix_normalize (join_str [SLASH] parts))"

text \<open>
  \<open>path.resolve\<close>: the arguments are taken from the last to the first, then the working
  directory, until an absolute one has been put in front.
\<close>

fun resolve_loop :: "jsstring list \<Rightarrow> jsstring \<Rightarrow> jsstring \<times> bool" where
  "resolve_loop [] resolvedPath = (resolvedPath, False)"
| "resolve_loop (p # ps) resolvedPath =
     (if p = [] then resolve_loop ps resolvedPath
      else if hd p = SLASH then (p @ [SLASH] @ resolvedPath, True)
      else resolve_loop ps (p @ [SLASH] @ resolvedPath))"

definition posix_resolve :: "jsstring \<Rightarrow> jsstring list \<Rightarrow> jsstring" where
  "posix_resolve cwd args =
     (case resolve_loop (rev args @ [cwd]) [] of
        (resolvedPath, resolvedAbsolute) \<Rightarrow>
          let n = normalizeString resolvedPath (\<not> resolvedAbsolute)
          in if resolvedAbsolute then SLASH # n
             else if n \<noteq> [] then n else [DOT])"

text \<open>
  \<open>path.relative\<close>: both paths are resolved, their common prefix is scanned from index 1
  for the last common slash, one \<open>..\<close> is produced for each segment of \<open>from\<close> after
  it, and the rest of \<open>to\<close> is appended.
\<close>

fun common_scan :: "jsstring \<Rightarrow> jsstring \<Rightarrow> nat \<Rightarrow> int \<Rightarrow> nat \<times> int" where
  "common_scan (x # xs) (y # ys) i lastCommonSep =
     (if x \<noteq> y then (i, lastCommonSep)
      else common_scan xs ys (Suc i) (if x = SLASH then int i else lastCommonSep))"
| "common_scan xs ys i lastCommonSep = (i, lastCommonSep)"

definition char_at :: "jsstring \<Rightarrow> nat \<Rightarrow> jschar option" where
  "char_at s i = (if i < length s then Some (s ! i) else None)"

definition relative_out :: "jsstring \<Rightarrow> int \<Rightarrow> jsstring" where
  "relative_out from lastCommonSep =
     (let start = nat (1 + lastCommonSep + 1)
      in if start \<le> length from
         then join_str [SLASH]
                (replicate (Suc (length (filter (\<lambda>c. c = SLASH) (drop start from)))) [DOT, DOT])
         else [])"

definition relative_core :: "jsstring \<Rightarrow> jsstring \<Rightarrow> jsstring" where
  "relative_core from to =
     (let fromLen = length from - 1;
          toLen = length to - 1;
          len = (if fromLen < toLen then fromLen else toLen)
      in case common_scan (take len (drop 1 from)) (take len (drop 1 to)) 0 (- 1) of
           (i, lcs) \<Rightarrow>
             if i = len \<and> len < toLen \<and> char_at to (1 + i) = Some SLASH
             then drop (1 + i + 1) to
             else if i = len \<and> len < toLen \<and> i = 0
             then drop (1 + i) to
             else
               let lastCommonSep =
                     (if i = len \<and> \<not> len < toLen \<and> len < fromLen
                      then (if char_at from (1 + i) = Some SLASH then int i
                            else if i = 0 then 0 else lcs)
                      else lcs)
               in relative_out from lastCommonSep @ drop (nat (1 + lastCommonSep)) to)"

definition posix_relative :: "jsstring \<Rightarrow> jsstring \<Rightarrow> jsstring \<Rightarrow> jsstring" where
  "posix_relative cwd from0 to0 =
     (if from0 = to0 then []
      else
        let from = posix_resolve cwd [from0];
            to = posix_resolve cwd [to0]
        in if from = to then [] else relative_core from to)"

text \<open>
  \<open>path.dirname\<close>: trailing slashes are passed over, then the last component; the
  slash in front of it (never the one at index 0) ends the result.
\<close>

definition posix_dirname :: "jsstring \<Rightarrow> jsstring" where
  "posix_dirname path =
     (if path = [] then [DOT]
      else
        let hasRoot = (hd path = SLASH);
            r = dropWhile (\<lambda>c. c \<noteq> SLASH) (dropWhile (\<lambda>c. c = SLASH) (rev (tl path)))
        in if r = [] then (if hasRoot then [SLASH] else [DOT])
           else if hasRoot \<and> length r = 1 then [SLASH, SLASH]
           else take (length r) path)"

text \<open>The last component of a path, its trailing slashes left out.\<close>

definition last_component :: "jsstring \<Rightarrow> jsstring" where
  "last_component path =
     rev (takeWhile (\<lambda>c. c \<noteq> SLASH) (dropWhile (\<lambda>c. c = SLASH) (rev path)))"

text \<open>
  \<open>path.extname\<close>: from the last dot of the last component to its end; empty when
  there is no dot, when the dot is the first character of the component, or when the
  component is \<open>..\<close>.
\<close>

definition posix_extname :: "jsstring \<Rightarrow> jsstring" where
  "posix_extname path =
     (let c = last_component path;
          afterDot = takeWhile (\<lambda>x. x \<noteq> DOT) (rev c);
          startDot = length c - length afterDot - 1
      in if DOT \<notin> set c \<or> startDot = 0 \<or> c = [DOT, DOT] then []
         else drop startDot c)"

text \<open>
  \<open>path.basename(path, suffix)\<close>: the scan of Node.js from the end of the path, which
  matches the suffix backwards inside the last component.  The list holds
  \<open>path[0..i]\<close> reversed, so its head is \<open>path[i]\<close>.
\<close>

record basename_state =
  bstart :: nat
  bend :: int
  matchedSlash :: bool
  extIdx :: int
  firstNonSlashEnd :: int

fun basename_scan :: "jsstring \<Rightarrow> jsstring \<Rightarrow> basename_state \<Rightarrow> basename_state" where
  "basename_scan suff [] st = st"
| "basename_scan suff (code # rest) st =
     (let i = length rest in
      if code = SLASH then
        (if \<not> matchedSlash st then st\<lparr>bstart := i + 1\<rparr>
         else basename_scan suff rest st)
      else
        let st1 = (if firstNonSlashEnd st = - 1
                   then st\<lparr>matchedSlash := False, firstNonSlashEnd := int i + 1\<rparr>
                   else st);
            st2 = (if 0 \<le> extIdx st1 then
                     (if char_at suff (nat (extIdx st1)) = Some code then
                        (if extIdx st1 - 1 = - 1
                         then st1\<lparr>extIdx := extIdx st1 - 1, bend := int i\<rparr>
                         else st1\<lparr>extIdx := extIdx st1 - 1\<rparr>)
                      else st1\<lparr>extIdx := - 1, bend := firstNonSlashEnd st1\<rparr>)
                   else st1)
        in basename_scan suff rest st2)"

definition slice :: "jsstring \<Rightarrow> nat \<Rightarrow> nat \<Rightarrow> jsstring" where
  "slice s a b = drop a (take b s)"

definition posix_basename :: "jsstring \<Rightarrow> jsstring \<Rightarrow> jsstring" where
  "posix_basename path suff =
     (if suff \<noteq> [] \<and> length suff \<le> length path then
        (if suff = path then []
         else
           let st = basename_scan suff (rev path)
                      \<lparr>bstart = 0, bend = - 1, matchedSlash = True,
                       extIdx = int (length suff) - 1, firstNonSlashEnd = - 1\<rparr>;
               end' = (if int (bstart st) = bend st then firstNonSlashEnd st
                       else if bend st = - 1 then int (length path)
                       else bend st)
           in slice path (bstart st) (nat end'))
      else last_component path)"

definition posix :: "jsstring \<Rightarrow> path_module" where
  "posix cwd =
     \<lparr>sep = [SLASH], join = posix_join, dirname = posix_dirname,
      relative = posix_relative cwd, basename = posix_basename, extname = posix_extname\<rparr>"

section \<open>The path deriver\<close>

record TestFileInfo =
  testPath :: jsstring
  importPath :: jsstring

text \<open>\<open>isUnderLibDirectory\<close> (lines 144 to 146).\<close>

definition isUnderLibDirectory :: "path_module \<Rightarrow> jsstring \<Rightarrow> bool" where
  "isUnderLibDirectory path relativePath =
     (prefix (u ''lib'' @ sep path) relativePath \<or> prefix (u ''lib/'') relativePath)"

text \<open>
  \<open>calculateTestFileInfoForLib\<close> (lines 169 to 202).  The package name is \<open>None\<close>
  for \<open>null\<close>; the test \<open>if (packageName)\<close> also fails on the empty string.
\<close>

definition calculateTestFileInfoForLib ::
  "path_module \<Rightarrow> jsstring \<Rightarrow> jsstring \<Rightarrow> jsstring \<Rightarrow> jsstring \<Rightarrow> jsstring \<Rightarrow>
   jsstring option \<Rightarrow> TestFileInfo" where
  "calculateTestFileInfoForLib path workspaceRoot sourcePath relativePath sourceFileName ext
       packageName =
     (let pathUnderLib = drop 4 relativePath;
          dirUnderLib = dirname path pathUnderLib;
          testFileName = sourceFileName @ u ''_test'' @ ext;
          testDir = join path [workspaceRoot, u ''test'', dirUnderLib];
          testPath = join path [testDir, testFileName];
          importPath =
            (case packageName of
               Some name \<Rightarrow>
                 if name \<noteq> [] then
                   (let pathForImport = join_str (u ''/'') (split_str (sep path) pathUnderLib)
                    in u ''package:'' @ name @ u ''/'' @ pathForImport)
                 else
                   (let testRelativePath = relative path workspaceRoot testPath;
                        sourceRelativePath = relative path workspaceRoot sourcePath;
                        importPath = relative path (dirname path testRelativePath)
                                       sourceRelativePath
                    in join_str (u ''/'') (split_str (sep path) importPath))
             | None \<Rightarrow>
                 (let testRelativePath = relative path workspaceRoot testPath;
                      sourceRelativePath = relative path workspaceRoot sourcePath;
                      importPath = relative path (dirname path testRelativePath)
                                     sourceRelativePath
                  in join_str (u ''/'') (split_str (sep path) importPath)))
      in \<lparr>testPath = testPath, importPath = importPath\<rparr>)"

text \<open>\<open>calculateTestFileInfoForNonLib\<close> (lines 207 to 218).\<close>

definition calculateTestFileInfoForNonLib ::
  "path_module \<Rightarrow> jsstring \<Rightarrow> jsstring \<Rightarrow> jsstring \<Rightarrow> TestFileInfo" where
  "calculateTestFileInfoForNonLib path sourcePath sourceFileName ext =
     (let sourceDir = dirname path sourcePath;
          testFileName = sourceFileName @ u ''_test'' @ ext;
          testPath = join path [sourceDir, testFileName];
          importPath = u ''./'' @ sourceFileName @ ext
      in \<lparr>testPath = testPath, importPath = importPath\<rparr>)"

text \<open>
  The part of \<open>handleCreateTestCommand\<close> that derives the test file (lines 290, 291,
  301 and 307 to 309): extension and base name of the source, its path relative to the
  workspace root, and the choice between the two derivations.
\<close>

definition handleCreateTestCommand_testFileInfo ::
  "path_module \<Rightarrow> jsstring \<Rightarrow> jsstring \<Rightarrow> jsstring option \<Rightarrow> TestFileInfo" where
  "handleCreateTestCommand_testFileInfo path workspaceRoot sourcePath packageName =
     (let ext = extname path sourcePath;
          sourceFileName = basename path sourcePath ext;
          relativePath = relative path workspaceRoot sourcePath
      in if isUnderLibDirectory path relativePath
         then calculateTestFileInfoForLib path workspaceRoot sourcePath relativePath
                sourceFileName ext packageName
         else calculateTestFileInfoForNonLib path sourcePath sourceFileName ext)"

section \<open>Regular expressions\<close>

text \<open>
  The two regular expressions of the source are run by a backtracking matcher in the
  manner of ECMAScript: \<open>rmatch r s\<close> lists, in the order in which backtracking tries
  them, the remainders of \<open>s\<close> after each way \<open>r\<close> can match a prefix of \<open>s\<close>.
  A quantifier is greedy, and an iteration that consumes nothing is not repeated.  A leading
  \<open>^\<close> is the anchor of the search: \<open>InputStart\<close> without the \<open>m\<close> flag,
  \<open>LineStart\<close> with it.  \<open>Eol True\<close> is \<open>$\<close> with the \<open>m\<close> flag.
\<close>

definition is_line_terminator :: "jschar \<Rightarrow> bool" where
  "is_line_terminator c = (c = 0x000A \<or> c = 0x000D \<or> c = 0x2028 \<or> c = 0x2029)"

text \<open>The class \<open>\s\<close>: white space and line terminators.\<close>

definition is_space :: "jschar \<Rightarrow> bool" where
  "is_space c =
     (c = 0x0009 \<or> c = 0x000B \<or> c = 0x000C \<or> c = 0x0020 \<or> c = 0x00A0 \<or> c = 0x1680
      \<or> (0x2000 \<le> c \<and> c \<le> 0x200A) \<or> c = 0x202F \<or> c = 0x205F \<or> c = 0x3000
      \<or> c = 0xFEFF \<or> is_line_terminator c)"

definition is_upper :: "jschar \<Rightarrow> bool" where "is_upper c = (0x41 \<le> c \<and> c \<le> 0x5A)"
definition is_lower :: "jschar \<Rightarrow> bool" where "is_lower c = (0x61 \<le> c \<and> c \<le> 0x7A)"
definition is_digit :: "jschar \<Rightarrow> bool" where "is_digit c = (0x30 \<le> c \<and> c \<le> 0x39)"
definition UNDERSCORE :: jschar where "UNDERSCORE = 0x5F"

datatype rx =
    Lit jsstring
  | Cls "jschar \<Rightarrow> bool"
  | Seq rx rx
  | Alt rx rx
  | Star rx
  | Eol bool

definition Plus :: "rx \<Rightarrow> rx" where
  "Plus r = Seq r (Star r)"

function rmatch :: "rx \<Rightarrow> jsstring \<Rightarrow> jsstring list" where
  "rmatch (Lit l) s = (if prefix l s then [drop (length l) s] else [])"
| "rmatch (Cls f) s =
     (case s of
        [] \<Rightarrow> []
      | c # cs \<Rightarrow> if f c then [cs] else [])"
| "rmatch (Seq a b) s = concat (map (rmatch b) (rmatch a s))"
| "rmatch (Alt a b) s = rmatch a s @ rmatch b s"
| "rmatch (Star a) s =
     concat (map (\<lambda>s'. if length s' < length s then rmatch (Star a) s' else [])
               (rmatch a s)) @ [s]"
| "rmatch (Eol multiline) s =
     (case s of
        [] \<Rightarrow> [s]
      | c # cs \<Rightarrow> if multiline \<and> is_line_terminator c then [s] else [])"
  by pat_completeness auto
termination
  by (relation "inv_image (less_than <*lex*> less_than) (\<lambda>(r, s). (size r, length s))") auto

text \<open>
  A regular expression with one capture group of interest is given as the part before
  the group, the group and the part after it.  A match is the pair of the whole matched
  text and the text of the group.
\<close>

definition captured :: "jsstring \<Rightarrow> jsstring \<Rightarrow> jsstring" where
  "captured a b = take (length a - length b) a"

definition rmatch_group :: "rx \<Rightarrow> rx \<Rightarrow> rx \<Rightarrow> jsstring \<Rightarrow> (jsstring \<times> jsstring) list" where
  "rmatch_group pre grp post s =
     concat (map (\<lambda>a. concat (map (\<lambda>b. map (\<lambda>c. (captured s c, captured a b)) (rmatch post b))
                                  (rmatch grp a)))
               (rmatch pre s))"

datatype anchor = AnyStart | InputStart | LineStart

fun anchor_ok :: "anchor \<Rightarrow> jschar option \<Rightarrow> bool" where
  "anchor_ok AnyStart prev = True"
| "anchor_ok InputStart prev = (prev = None)"
| "anchor_ok LineStart prev = (case prev of None \<Rightarrow> True | Some c \<Rightarrow> is_line_terminator c)"

text \<open>
  \<open>s.match(re)\<close> without the \<open>g\<close> flag: the start positions are tried from the
  left, and the first way to match at the first position that has one is the result.
  \<open>prev\<close> is the code unit in front of the position.
\<close>

fun exec_from ::
  "anchor \<Rightarrow> rx \<Rightarrow> rx \<Rightarrow> rx \<Rightarrow> jschar option \<Rightarrow> jsstring \<Rightarrow> (jsstring \<times> jsstring) option" where
  "exec_from anc pre grp post prev s =
     (case (if anchor_ok anc prev then rmatch_group pre grp post s else []) of
        m # _ \<Rightarrow> Some m
      | [] \<Rightarrow> (case s of [] \<Rightarrow> None | c # cs \<Rightarrow> exec_from anc pre grp post (Some c) cs))"

definition regex_match ::
  "anchor \<Rightarrow> rx \<Rightarrow> rx \<Rightarrow> rx \<Rightarrow> jsstring \<Rightarrow> (jsstring \<times> jsstring) option" where
  "regex_match anc pre grp post s = exec_from anc pre grp post None s"

section \<open>The class-declaration matcher\<close>

text \<open>
  \<open>DART_CLASS_REGEX\<close> (line 5):
  \<^verbatim>\<open>/^(\s*(?:(?:abstract|base|interface|final|sealed|mixin)\s+)*class\s+([A-Za-z_][A-Za-z0-9_]*))/\<close>.
  Its first group is the whole match, its second group the identifier.
\<close>

definition modifier :: rx where
  "modifier =
     Alt (Lit (u ''abstract'')) (Alt (Lit (u ''base'')) (Alt (Lit (u ''interface''))
       (Alt (Lit (u ''final'')) (Alt (Lit (u ''sealed'')) (Lit (u ''mixin''))))))"

definition ident_start :: "jschar \<Rightarrow> bool" where
  "ident_start c = (is_upper c \<or> is_lower c \<or> c = UNDERSCORE)"

definition ident_char :: "jschar \<Rightarrow> bool" where
  "ident_char c = (is_upper c \<or> is_lower c \<or> is_digit c \<or> c = UNDERSCORE)"

definition DART_CLASS_REGEX :: "jsstring \<Rightarrow> (jsstring \<times> jsstring) option" where
  "DART_CLASS_REGEX =
     regex_match InputStart
       (Seq (Star (Cls is_space))
          (Seq (Star (Seq modifier (Plus (Cls is_space))))
             (Seq (Lit (u ''class'')) (Plus (Cls is_space)))))
       (Seq (Cls ident_start) (Star (Cls ident_char)))
       (Lit [])"

text \<open>\<open>text.split(/\r?\n/)\<close>.\<close>

fun split_lines :: "jsstring \<Rightarrow> jsstring list" where
  "split_lines [] = [[]]"
| "split_lines (c # cs) =
     (if c = LF then [] # split_lines cs
      else if c = CR \<and> cs \<noteq> [] \<and> hd cs = LF then [] # split_lines (tl cs)
      else (case split_lines cs of
              [] \<Rightarrow> [[c]]
            | l # ls \<Rightarrow> (c # l) # ls))"

record ClassInfo =
  uri :: jsstring
  className :: jsstring

record CodeLens =
  lens_line :: nat
  lens_start :: nat
  lens_end :: nat
  lens_title :: jsstring
  lens_tooltip :: jsstring
  lens_command :: jsstring
  lens_arguments :: ClassInfo

definition COMMAND_ID :: jsstring where
  "COMMAND_ID = u ''createTest.createTestForClass''"

text \<open>
  \<open>provideCodeLenses\<close> (lines 110 to 138): the loop over the lines, \<open>i\<close> the index
  of the first line of the list.
\<close>

fun codeLenses_from :: "jsstring \<Rightarrow> nat \<Rightarrow> jsstring list \<Rightarrow> CodeLens list" where
  "codeLenses_from documentUri i [] = []"
| "codeLenses_from documentUri i (l # ls) =
     (case DART_CLASS_REGEX l of
        None \<Rightarrow> codeLenses_from documentUri (Suc i) ls
      | Some (whole, name) \<Rightarrow>
          \<lparr>lens_line = i, lens_start = 0, lens_end = length whole,
           lens_title = u ''$(beaker) Create test file'',
           lens_tooltip = u ''Create test file for '' @ name,
           lens_command = COMMAND_ID,
           lens_arguments = \<lparr>uri = documentUri, className = name\<rparr>\<rparr>
            # codeLenses_from documentUri (Suc i) ls)"

definition provideCodeLenses :: "jsstring \<Rightarrow> jsstring \<Rightarrow> CodeLens list" where
  "provideCodeLenses documentUri text = codeLenses_from documentUri 0 (split_lines text)"

section \<open>The host: editor and file system\<close>

text \<open>
  The editor API is a parameter: the state \<open>'fs\<close> of the file system and the operations
  of \<open>vscode.workspace.fs\<close>, \<open>vscode.workspace\<close>, \<open>vscode.window\<close>,
  \<open>vscode.Uri\<close> and \<open>Buffer\<close> that the source calls.  An operation that can
  reject gives the stringified error; \<open>fs_createDirectory\<close> gives the state it leaves,
  whether it succeeded or not, since its error is swallowed.  \<open>uri_parse_fsPath\<close> is
  \<open>vscode.Uri.parse(s).fsPath\<close>, \<open>getWorkspaceFolder\<close> gives the \<open>fsPath\<close> of
  the folder.  Every call leaves an event in the trace.
\<close>

type_synonym bytes = "8 word list"

datatype event =
    ConsoleError jsstring
  | ShowErrorMessage jsstring
  | ShowInformationMessage jsstring
  | ReadFile jsstring
  | Stat jsstring
  | CreateDirectory jsstring
  | WriteFile jsstring bytes
  | OpenTextDocument jsstring
  | ShowTextDocument jsstring

record 'fs host =
  uri_parse_fsPath :: "jsstring \<Rightarrow> jsstring + jsstring"
  getWorkspaceFolder :: "jsstring \<Rightarrow> jsstring option"
  fs_stat :: "'fs \<Rightarrow> jsstring \<Rightarrow> bool"
  fs_readFile :: "'fs \<Rightarrow> jsstring \<Rightarrow> bytes option"
  fs_createDirectory :: "'fs \<Rightarrow> jsstring \<Rightarrow> 'fs"
  fs_writeFile :: "'fs \<Rightarrow> jsstring \<Rightarrow> bytes \<Rightarrow> 'fs \<times> jsstring option"
  openTextDocument :: "'fs \<Rightarrow> jsstring \<Rightarrow> jsstring option"
  showTextDocument :: "'fs \<Rightarrow> jsstring \<Rightarrow> jsstring option"
  utf8_decode :: "bytes \<Rightarrow> jsstring"
  utf8_encode :: "jsstring \<Rightarrow> bytes"

section \<open>Package-name resolution\<close>

text \<open>
  The regular expression of \<open>getPackageName\<close> (line 159):
  \<^verbatim>\<open>/^name:\s*([a-z_][a-z0-9_]*)\s*$/m\<close>.
\<close>

definition name_start :: "jschar \<Rightarrow> bool" where
  "name_start c = (is_lower c \<or> c = UNDERSCORE)"

definition name_char :: "jschar \<Rightarrow> bool" where
  "name_char c = (is_lower c \<or> is_digit c \<or> c = UNDERSCORE)"

definition PUBSPEC_NAME_REGEX :: "jsstring \<Rightarrow> (jsstring \<times> jsstring) option" where
  "PUBSPEC_NAME_REGEX =
     regex_match LineStart
       (Seq (Lit (u ''name:'')) (Star (Cls is_space)))
       (Seq (Cls name_start) (Star (Cls name_char)))
       (Seq (Star (Cls is_space)) (Eol True))"

text \<open>
  \<open>getPackageName\<close> (lines 151 to 164).  A read that rejects is caught and gives
  \<open>null\<close>, here \<open>None\<close>.
\<close>

definition getPackageName ::
  "'fs host \<Rightarrow> path_module \<Rightarrow> 'fs \<Rightarrow> jsstring \<Rightarrow> jsstring option \<times> event list" where
  "getPackageName H path fs workspaceRoot =
     (let pubspecPath = join path [workspaceRoot, u ''pubspec.yaml'']
      in case fs_readFile H fs pubspecPath of
           None \<Rightarrow> (None, [ReadFile pubspecPath])
         | Some pubspecContent \<Rightarrow>
             (let content = utf8_decode H pubspecContent
              in case PUBSPEC_NAME_REGEX content of
                   Some m \<Rightarrow> (Some (snd m), [ReadFile pubspecPath])
                 | None \<Rightarrow> (None, [ReadFile pubspecPath])))"

section \<open>The orchestrator\<close>

text \<open>\<open>fileExists\<close> (lines 234 to 241).\<close>

definition fileExists :: "'fs host \<Rightarrow> 'fs \<Rightarrow> jsstring \<Rightarrow> bool \<times> event list" where
  "fileExists H fs p = (fs_stat H fs p, [Stat p])"

text \<open>\<open>ensureDirectoryExists\<close> (lines 246 to 253).\<close>

definition ensureDirectoryExists :: "'fs host \<Rightarrow> 'fs \<Rightarrow> jsstring \<Rightarrow> 'fs \<times> event list" where
  "ensureDirectoryExists H fs dirPath =
     (fs_createDirectory H fs dirPath, [CreateDirectory dirPath])"

text \<open>
  \<open>openExistingTestFile\<close> (lines 258 to 265); the first component is the error it
  rejects with, if any.
\<close>

definition openExistingTestFile ::
  "'fs host \<Rightarrow> path_module \<Rightarrow> 'fs \<Rightarrow> jsstring \<Rightarrow> jsstring option \<times> event list" where
  "openExistingTestFile H path fs tp =
     (case openTextDocument H fs tp of
        Some err \<Rightarrow> (Some err, [OpenTextDocument tp])
      | None \<Rightarrow>
          (case showTextDocument H fs tp of
             Some err \<Rightarrow> (Some err, [OpenTextDocument tp, ShowTextDocument tp])
           | None \<Rightarrow>
               (None, [OpenTextDocument tp, ShowTextDocument tp,
                       ShowInformationMessage
                         (u ''Test file already exists: '' @ basename path tp [])])))"

text \<open>\<open>createAndOpenTestFile\<close> (lines 270 to 284).\<close>

definition createAndOpenTestFile ::
  "'fs host \<Rightarrow> path_module \<Rightarrow> 'fs \<Rightarrow> jsstring \<Rightarrow> jsstring \<Rightarrow> jsstring \<Rightarrow>
   'fs \<times> jsstring option \<times> event list" where
  "createAndOpenTestFile H path fs tp content workspaceRoot =
     (case fs_writeFile H fs tp (utf8_encode H content) of
        (fs', Some err) \<Rightarrow> (fs', Some err, [WriteFile tp (utf8_encode H content)])
      | (fs', None) \<Rightarrow>
          (case openTextDocument H fs' tp of
             Some err \<Rightarrow>
               (fs', Some err, [WriteFile tp (utf8_encode H content), OpenTextDocument tp])
           | None \<Rightarrow>
               (case showTextDocument H fs' tp of
                  Some err \<Rightarrow>
                    (fs', Some err,
                     [WriteFile tp (utf8_encode H content), OpenTextDocument tp,
                      ShowTextDocument tp])
                | None \<Rightarrow>
                    (fs', None,
                     [WriteFile tp (utf8_encode H content), OpenTextDocument tp,
                      ShowTextDocument tp,
                      ShowInformationMessage
                        (u ''Created test: '' @ relative path workspaceRoot tp)]))))"

text \<open>The \<open>catch\<close> block of \<open>handleCreateTestCommand\<close> (lines 325 to 328).\<close>

definition report_failure :: "jsstring \<Rightarrow> event list" where
  "report_failure err =
     [ConsoleError err, ShowErrorMessage (u ''Failed to create test file: '' @ err)]"

text \<open>
  \<open>handleCreateTestCommand\<close> (lines 286 to 329): the file system it leaves and the
  trace of its calls.
\<close>

definition handleCreateTestCommand ::
  "'fs host \<Rightarrow> path_module \<Rightarrow> ClassInfo \<Rightarrow> 'fs \<Rightarrow> 'fs \<times> event list" where
  "handleCreateTestCommand H path args fs =
     (case uri_parse_fsPath H (uri args) of
        Inl err \<Rightarrow> (fs, report_failure err)
      | Inr sourcePath \<Rightarrow>
          (case getWorkspaceFolder H (uri args) of
             None \<Rightarrow> (fs, [ShowErrorMessage (u ''File is not in a workspace folder'')])
           | Some workspaceRoot \<Rightarrow>
               (case getPackageName H path fs workspaceRoot of
                  (packageName, ev1) \<Rightarrow>
                    let testFileInfo =
                          handleCreateTestCommand_testFileInfo path workspaceRoot sourcePath
                            packageName;
                        tp = testPath testFileInfo
                    in case fileExists H fs tp of
                         (True, ev2) \<Rightarrow>
                           (case openExistingTestFile H path fs tp of
                              (None, ev3) \<Rightarrow> (fs, ev1 @ ev2 @ ev3)
                            | (Some err, ev3) \<Rightarrow> (fs, ev1 @ ev2 @ ev3 @ report_failure err))
                       | (False, ev2) \<Rightarrow>
                           (case ensureDirectoryExists H fs (dirname path tp) of
                              (fs1, ev3) \<Rightarrow>
                                let testContent =
                                      generateTestContent (className args)
                                        (importPath testFileInfo)
                                in case createAndOpenTestFile H path fs1 tp testContent
                                          workspaceRoot of
                                     (fs2, None, ev4) \<Rightarrow> (fs2, ev1 @ ev2 @ ev3 @ ev4)
                                   | (fs2, Some err, ev4) \<Rightarrow>
                                       (fs2, ev1 @ ev2 @ ev3 @ ev4 @ report_failure err)))))"

text \<open>
  A small host in memory, to run the orchestrator on: the files are an association list
  from paths to contents, every directory exists, a document opens when its file exists,
  text is ASCII, and a URI is \<open>file://\<close> followed by the path.
\<close>

type_synonym mem_fs = "(jsstring \<times> bytes) list"

definition mem_host :: "jsstring \<Rightarrow> mem_fs host" where
  "mem_host root =
     \<lparr>uri_parse_fsPath =
        (\<lambda>s. if prefix (u ''file://'') s then Inr (drop 7 s) else Inl (u ''UriError'')),
      getWorkspaceFolder =
        (\<lambda>s. if prefix (u ''file://'' @ root @ u ''/'') s then Some root else None),
      fs_stat = (\<lambda>fs p. map_of fs p \<noteq> None),
      fs_readFile = (\<lambda>fs p. map_of fs p),
      fs_createDirectory = (\<lambda>fs p. fs),
      fs_writeFile = (\<lambda>fs p b. ((p, b) # fs, None)),
      openTextDocument = (\<lambda>fs p. if map_of fs p \<noteq> None then None else Some (u ''FileNotFound'')),
      showTextDocument = (\<lambda>fs p. None),
      utf8_decode = map ucast,
      utf8_encode = map ucast\<rparr>"

definition ascii :: "string \<Rightarrow> bytes" where
  "ascii s = map of_char s"

text \<open>
  The same host when \<open>stat\<close> is out of order: every \<open>vscode.workspace.fs.stat\<close>
  rejects (as a file system provider does with \<open>Unavailable\<close> or
  \<open>NoPermissions\<close>), whether the file is there or not, while reading and writing work
  as before.
\<close>

definition stat_rejecting_host :: "jsstring \<Rightarrow> mem_fs host" where
  "stat_rejecting_host root = (mem_host root)\<lparr>fs_stat := (\<lambda>fs p. False)\<rparr>"

section \<open>Auxiliary notions\<close>

text \<open>
  The continuation of a match: \<open>run r k s\<close> collects, in the order of backtracking, what
  \<open>k\<close> makes of each remainder that \<open>r\<close> leaves of \<open>s\<close>.
\<close>

definition run :: "rx \<Rightarrow> (jsstring \<Rightarrow> 'a list) \<Rightarrow> jsstring \<Rightarrow> 'a list" where
  "run r k s = concat (map k (rmatch r s))"

text \<open>
  What a regular expression matches, as a relation: \<open>matches r p rest\<close> when \<open>r\<close> can
  consume \<open>p\<close> in front of \<open>rest\<close>.
\<close>

inductive matches :: "rx \<Rightarrow> jsstring \<Rightarrow> jsstring \<Rightarrow> bool" where
  m_Lit: "matches (Lit l) l rest"
| m_Cls: "f c \<Longrightarrow> matches (Cls f) [c] rest"
| m_Seq: "matches a p1 (p2 @ rest) \<Longrightarrow> matches b p2 rest \<Longrightarrow> matches (Seq a b) (p1 @ p2) rest"
| m_AltL: "matches a p rest \<Longrightarrow> matches (Alt a b) p rest"
| m_AltR: "matches b p rest \<Longrightarrow> matches (Alt a b) p rest"
| m_Star0: "matches (Star a) [] rest"
| m_Star: "matches a p1 (p2 @ rest) \<Longrightarrow> matches (Star a) p2 rest \<Longrightarrow>
           matches (Star a) (p1 @ p2) rest"
| m_Eol: "rest = [] \<or> (multiline \<and> is_line_terminator (hd rest)) \<Longrightarrow>
          matches (Eol multiline) [] rest"

text \<open>
  The shape of a class declaration line, in words: optional white space, modifiers each
  followed by white space, \<open>class\<close>, white space, and an identifier that the next
  character does not continue.  \<open>whole\<close> is the text up to the end of the identifier.
\<close>

definition modifier_keywords :: "jsstring list" where
  "modifier_keywords =
     [u ''abstract'', u ''base'', u ''interface'', u ''final'', u ''sealed'', u ''mixin'']"

inductive modifier_seq :: "jsstring \<Rightarrow> bool" where
  ms_Nil: "modifier_seq []"
| ms_Cons: "kw \<in> set modifier_keywords \<Longrightarrow> w \<noteq> [] \<Longrightarrow> list_all is_space w \<Longrightarrow>
            modifier_seq m \<Longrightarrow> modifier_seq (kw @ w @ m)"

definition is_identifier :: "jsstring \<Rightarrow> bool" where
  "is_identifier name = (name \<noteq> [] \<and> ident_start (hd name) \<and> list_all ident_char (tl name))"

definition class_declaration_line :: "jsstring \<Rightarrow> jsstring \<Rightarrow> jsstring \<Rightarrow> bool" where
  "class_declaration_line line whole name =
     (\<exists>ws mods ws1 rest.
        line = whole @ rest \<and> whole = ws @ mods @ u ''class'' @ ws1 @ name
        \<and> list_all is_space ws \<and> modifier_seq mods
        \<and> ws1 \<noteq> [] \<and> list_all is_space ws1
        \<and> is_identifier name \<and> list_all (\<lambda>c. \<not> ident_char c) (take 1 rest))"

text \<open>The first letters of the modifier keywords.\<close>

definition keyword_initial :: "jschar \<Rightarrow> bool" where
  "keyword_initial c = (c = 0x61 \<or> c = 0x62 \<or> c = 0x69 \<or> c = 0x66 \<or> c = 0x73 \<or> c = 0x6D)"

text \<open>The parts of \<open>DART_CLASS_REGEX\<close> in front of its second group, and that group.\<close>

abbreviation (input) dart_pre :: rx where
  "dart_pre \<equiv>
     Seq (Star (Cls is_space))
       (Seq (Star (Seq modifier (Plus (Cls is_space))))
          (Seq (Lit (u ''class'')) (Plus (Cls is_space))))"

abbreviation (input) dart_grp :: rx where
  "dart_grp \<equiv> Seq (Cls ident_start) (Star (Cls ident_char))"

text \<open>The parts of the regular expression of \<open>getPackageName\<close>.\<close>

abbreviation (input) name_pre :: rx where
  "name_pre \<equiv> Seq (Lit (u ''name:'')) (Star (Cls is_space))"

abbreviation (input) name_grp :: rx where
  "name_grp \<equiv> Seq (Cls name_start) (Star (Cls name_char))"

abbreviation (input) name_post :: rx where
  "name_post \<equiv> Seq (Star (Cls is_space)) (Eol True)"

text \<open>
  A name entry, in words: \<open>name:\<close>, optional white space (line breaks included), an
  identifier of lowercase letters, digits and underscores that starts with a lowercase
  letter or an underscore, and optional white space up to the end of a line or of the text.
\<close>

definition is_package_identifier :: "jsstring \<Rightarrow> bool" where
  "is_package_identifier name =
     (name \<noteq> [] \<and> name_start (hd name) \<and> list_all name_char (tl name))"

definition name_entry :: "jsstring \<Rightarrow> jsstring \<Rightarrow> bool" where
  "name_entry s name =
     (\<exists>ws ws' rest.
        s = u ''name:'' @ ws @ name @ ws' @ rest
        \<and> list_all is_space ws \<and> is_package_identifier name
        \<and> list_all is_space ws' \<and> list_all is_line_terminator (take 1 rest))"

text \<open>The text in front of a position ends a line, or is empty.\<close>

definition at_line_start :: "jsstring \<Rightarrow> bool" where
  "at_line_start before = list_all is_line_terminator (take 1 (rev before))"

text \<open>The first name entry of a text that starts a line.\<close>

definition first_name_entry :: "jsstring \<Rightarrow> jsstring \<Rightarrow> bool" where
  "first_name_entry content name =
     (\<exists>before s.
        content = before @ s \<and> at_line_start before \<and> name_entry s name
        \<and> (\<forall>before' s' name'.
              content = before' @ s' \<and> length before' < length before
              \<and> at_line_start before' \<longrightarrow> \<not> name_entry s' name'))"

text \<open>The code unit in front of a position, \<open>prev\<close> being the one in front of the text.\<close>

definition prev_at :: "jschar option \<Rightarrow> jsstring \<Rightarrow> jschar option" where
  "prev_at prev before = (if before = [] then prev else Some (last before))"

text \<open>
  The reading of the specification, for comparison: the manifest has a line of the form
  \<open>name: <identifier>\<close>.  The lines are the pieces between line terminators; a line
  has the form when it is \<open>name:\<close>, optional white space, an identifier and optional
  white space, and then it gives that identifier.
\<close>

fun spec_manifest_lines :: "jsstring \<Rightarrow> jsstring list" where
  "spec_manifest_lines [] = [[]]"
| "spec_manifest_lines (c # cs) =
     (if is_line_terminator c then [] # spec_manifest_lines cs
      else (case spec_manifest_lines cs of
              [] \<Rightarrow> [[c]]
            | l # ls \<Rightarrow> (c # l) # ls))"

definition spec_name_line_identifier :: "jsstring \<Rightarrow> jsstring option" where
  "spec_name_line_identifier l =
     (if prefix (u ''name:'') l then
        (case dropWhile is_space (drop 5 l) of
           [] \<Rightarrow> None
         | c # cs \<Rightarrow>
             if name_start c \<and> list_all is_space (dropWhile name_char cs)
             then Some (c # takeWhile name_char cs) else None)
      else None)"

text \<open>The events that create something on disk.\<close>

fun is_creation_event :: "event \<Rightarrow> bool" where
  "is_creation_event (CreateDirectory p) = True"
| "is_creation_event (WriteFile p b) = True"
| "is_creation_event e = False"

text \<open>The stack of segments that \<open>normalizeString\<close> builds for a path.\<close>

definition nstack :: "bool \<Rightarrow> jsstring \<Rightarrow> jsstring list" where
  "nstack al p = foldl (norm_step al) [] (split_str [SLASH] p)"

text \<open>The text a non-empty stack puts in front of the segments that follow it.\<close>

definition stack_prefix :: "jsstring list \<Rightarrow> jsstring" where
  "stack_prefix S = (if S = [] then [] else join_str [SLASH] S @ [SLASH])"

section \<open>Properties of the generator\<close>

lemma drop_take_middle:
  "length a = n \<Longrightarrow> drop n (take (n + length x) (a @ x @ b)) = x"
  by simp

text \<open>
  C10: the generator substitutes its inputs verbatim.  For every class name and import
  path the output is the line \<open>import '<importPath>';\<close>, a blank line,
  \<open>void main() {\<close>, the line \<open>  group('<className>', () {\<close>, a blank line,
  \<open>  });\<close> and \<open>}\<close>, each ended by a line feed; nothing is escaped, so the
  inputs stand between the single quotes as they came, single quotes included: the import
  path is read back unchanged at offset 8 of the output, the class name at offset 35 plus
  the length of the import path.
\<close>

theorem generateTestContent_verbatim:
  "generateTestContent cls imp =
     u ''import '' @ [SQ] @ imp @ [SQ] @ u '';'' @ [LF] @
     [LF] @
     u ''void main() {'' @ [LF] @
     u ''  group('' @ [SQ] @ cls @ [SQ] @ u '', () {'' @ [LF] @
     [LF] @
     u ''  });'' @ [LF] @
     u ''}'' @ [LF]
   \<and> drop 8 (take (8 + length imp) (generateTestContent cls imp))
       = imp
   \<and> drop (35 + length imp)
        (take (35 + length imp + length cls)
           (generateTestContent cls imp))
       = cls"
proof -
  have shape: "generateTestContent cls imp =
     u ''import '' @ [SQ] @ imp @ [SQ] @ u '';'' @ [LF] @
     [LF] @
     u ''void main() {'' @ [LF] @
     u ''  group('' @ [SQ] @ cls @ [SQ] @ u '', () {'' @ [LF] @
     [LF] @
     u ''  });'' @ [LF] @
     u ''}'' @ [LF]"
    by (simp add: generateTestContent_def)
  have at_imp: "drop 8 (take (8 + length imp) (generateTestContent cls imp))
       = imp"
    unfolding generateTestContent_def
    using drop_take_middle [of "u ''import '' @ [SQ]" 8 imp]
    by (simp add: u_def)
  have at_cls: "drop (35 + length imp)
        (take (35 + length imp + length cls)
           (generateTestContent cls imp))
       = cls"
    unfolding generateTestContent_def
    using drop_take_middle [of "u ''import '' @ [SQ] @ imp @ [SQ] @ u '';'' @ [LF, LF]
         @ u ''void main() {'' @ [LF] @ u ''  group('' @ [SQ]" "35 + length imp" cls]
    by (simp add: u_def)
  from shape at_imp at_cls show ?thesis by blast
qed

text \<open>
  C5, as amended: for class name \<open>Widget\<close> and import path \<open>./widget.dart\<close> the
  generator returns the fixed template of seven lines (five of them non-blank): the import
  line carries the import path, the group line carries \<open>Widget\<close>; the entry function
  takes no argument and the group body is empty.
\<close>

theorem generateTestContent_Widget:
  "generateTestContent (u ''Widget'') (u ''./widget.dart'') =
     u ''import '' @ [SQ] @ u ''./widget.dart'' @ [SQ] @ u '';'' @ [LF] @
     [LF] @
     u ''void main() {'' @ [LF] @
     u ''  group('' @ [SQ] @ u ''Widget'' @ [SQ] @ u '', () {'' @ [LF] @
     [LF] @
     u ''  });'' @ [LF] @
     u ''}'' @ [LF]
   \<and> terminated_line_count (generateTestContent (u ''Widget'') (u ''./widget.dart'')) = 7
   \<and> nonblank_line_count (generateTestContent (u ''Widget'') (u ''./widget.dart'')) = 5"
  by (simp add: generateTestContent_def terminated_line_count_def nonblank_line_count_def
        text_lines_def split_str_def u_def LF_def SQ_def)

text \<open>
  C5, as stated, fails on that input: the output has neither four lines nor four non-blank
  lines, and \<open>Widget\<close> does not occur in its import line.
\<close>

theorem generateTestContent_Widget_not_four_lines:
  "\<not> (terminated_line_count (generateTestContent (u ''Widget'') (u ''./widget.dart'')) = 4
      \<or> nonblank_line_count (generateTestContent (u ''Widget'') (u ''./widget.dart'')) = 4
      \<or> sublist (u ''Widget'')
           (first_line (generateTestContent (u ''Widget'') (u ''./widget.dart''))))"
  by (simp add: generateTestContent_def terminated_line_count_def nonblank_line_count_def
        first_line_def text_lines_def split_str_def u_def LF_def SQ_def sublist_code)

section \<open>Splitting and joining\<close>

lemma split_ne_nonempty: "split_ne sp s \<noteq> []"
  by (induction sp s rule: split_ne.induct) (auto split: list.splits)


lemma split_ne_single_eq: "split_ne [c] (c # xs) = [] # split_ne [c] xs"
  by simp

lemma split_ne_single_neq:
  "x \<noteq> c \<Longrightarrow> split_ne [c] (x # xs) = (x # hd (split_ne [c] xs)) # tl (split_ne [c] xs)"
  using split_ne_nonempty [of "[c]" xs] by (auto split: list.splits)

lemma join_str_Cons_head:
  "ls \<noteq> [] \<Longrightarrow> join_str sp ((x # hd ls) # tl ls) = x # join_str sp ls"
  by (cases ls) (auto simp: neq_Nil_conv, case_tac list, auto)

lemma join_split_single:
  "join_str [d] (split_ne [c] s) = map (\<lambda>x. if x = c then d else x) s"
proof (induction s)
  case Nil
  show ?case by simp
next
  case (Cons x xs)
  show ?case
  proof (cases "x = c")
    case True
    obtain l ls where "split_ne [c] xs = l # ls"
      using split_ne_nonempty [of "[c]" xs] by (cases "split_ne [c] xs") auto
    with True Cons show ?thesis by simp
  next
    case False
    with Cons show ?thesis
      by (simp add: split_ne_single_neq join_str_Cons_head split_ne_nonempty del: split_ne.simps)
  qed
qed


lemma split_ne_nosep: "c \<notin> set s \<Longrightarrow> split_ne [c] s = [s]"
  by (induction s) auto

lemma split_ne_elems: "seg \<in> set (split_ne [c] s) \<Longrightarrow> c \<notin> set seg"
proof (induction s arbitrary: seg)
  case Nil
  then show ?case by simp
next
  case (Cons x xs)
  show ?case
  proof (cases "x = c")
    case True
    with Cons show ?thesis by auto
  next
    case False
    obtain l ls where e: "split_ne [c] xs = l # ls"
      using split_ne_nonempty [of "[c]" xs] by (cases "split_ne [c] xs") auto
    with False Cons show ?thesis by auto
  qed
qed

lemma split_ne_app_sep:
  "split_ne [c] (a @ c # b) = split_ne [c] a @ split_ne [c] b"
proof (induction a)
  case Nil
  show ?case by simp
next
  case (Cons x xs)
  show ?case
  proof (cases "x = c")
    case True
    with Cons show ?thesis by simp
  next
    case False
    obtain l ls where e: "split_ne [c] xs = l # ls"
      using split_ne_nonempty [of "[c]" xs] by (cases "split_ne [c] xs") auto
    with False Cons show ?thesis by simp
  qed
qed

lemma join_str_append:
  "xs \<noteq> [] \<Longrightarrow> ys \<noteq> [] \<Longrightarrow> join_str sp (xs @ ys) = join_str sp xs @ sp @ join_str sp ys"
  by (induction sp xs rule: join_str.induct) (auto simp: neq_Nil_conv)

lemma join_str_snoc:
  "xs \<noteq> [] \<Longrightarrow> join_str sp (xs @ [y]) = join_str sp xs @ sp @ y"
  by (simp add: join_str_append)

lemma split_join_single:
  "segs \<noteq> [] \<Longrightarrow> \<forall>seg\<in>set segs. c \<notin> set seg \<Longrightarrow> split_ne [c] (join_str [c] segs) = segs"
proof (induction "[c]" segs rule: join_str.induct)
  case 1
  then show ?case by simp
next
  case (2 x)
  then show ?case by (simp add: split_ne_nosep)
next
  case (3 x y ys)
  then show ?case
    using split_ne_app_sep [of c x "join_str [c] (y # ys)"]
    by (simp add: split_ne_nosep del: split_ne.simps)
qed




lemma norm_step_cases:
  "norm_step al A x = A \<or> norm_step al A x = A @ [x]
     \<or> (norm_step al A x = butlast A \<and> A \<noteq> [])"
  by (auto simp: norm_step_def)

lemma norm_step_length: "length (norm_step al A x) \<le> Suc (length A)"
  using norm_step_cases [of al A x] by auto

lemma norm_fold_length: "length (foldl (norm_step al) A X) \<le> length A + length X"
proof (induction X arbitrary: A)
  case Nil
  show ?case by simp
next
  case (Cons x X)
  have "length (foldl (norm_step al) (norm_step al A x) X) \<le> length (norm_step al A x) + length X"
    by (rule Cons.IH)
  also have "\<dots> \<le> Suc (length A) + length X"
    using norm_step_length [of al A x] by simp
  finally show ?case by simp
qed

lemma norm_fixed_butlast:
  assumes "foldl (norm_step al) [] (B @ [y]) = B @ [y]"
  shows "foldl (norm_step al) [] B = B"
proof -
  let ?C = "foldl (norm_step al) [] B"
  have len: "length ?C \<le> length B"
    using norm_fold_length [of al "[]" B] by simp
  from assms have st: "norm_step al ?C y = B @ [y]" by simp
  show ?thesis
  proof (cases "norm_step al ?C y = ?C @ [y]")
    case True
    with st show ?thesis by simp
  next
    case False
    then have "length (norm_step al ?C y) \<le> length ?C"
      by (auto simp: norm_step_def split: if_splits)
    with st len show ?thesis by simp
  qed
qed

lemma norm_step_fixed:
  assumes "foldl (norm_step al) [] A = A"
  shows "foldl (norm_step al) [] (norm_step al A x) = norm_step al A x"
proof -
  consider (skip) "norm_step al A x = A"
    | (push) "norm_step al A x = A @ [x]"
    | (pop) "norm_step al A x = butlast A" "A \<noteq> []"
    using norm_step_cases [of al A x] by blast
  then show ?thesis
  proof cases
    case skip
    with assms show ?thesis by simp
  next
    case push
    with assms show ?thesis by simp
  next
    case pop
    then have "A = butlast A @ [last A]" by simp
    with assms have "foldl (norm_step al) [] (butlast A @ [last A]) = butlast A @ [last A]"
      by simp
    then have "foldl (norm_step al) [] (butlast A) = butlast A"
      by (rule norm_fixed_butlast)
    with pop show ?thesis by simp
  qed
qed

lemma norm_fold_fixed:
  "foldl (norm_step al) [] A = A \<Longrightarrow>
   foldl (norm_step al) [] (foldl (norm_step al) A X) = foldl (norm_step al) A X"
proof (induction X arbitrary: A)
  case Nil
  then show ?case by simp
next
  case (Cons x X)
  from Cons.prems have "foldl (norm_step al) [] (norm_step al A x) = norm_step al A x"
    by (rule norm_step_fixed)
  then show ?case using Cons.IH [of "norm_step al A x"] by simp
qed

lemma norm_step_set:
  "seg \<in> set (norm_step al A x) \<Longrightarrow> seg \<in> set A \<or> (seg = x \<and> x \<noteq> [])"
  by (auto simp: norm_step_def split: if_splits dest: in_set_butlastD)

lemma norm_fold_segs:
  "\<forall>seg\<in>set A. seg \<noteq> [] \<and> SLASH \<notin> set seg \<Longrightarrow> \<forall>x\<in>set X. SLASH \<notin> set x \<Longrightarrow>
   \<forall>seg\<in>set (foldl (norm_step al) A X). seg \<noteq> [] \<and> SLASH \<notin> set seg"
proof (induction X arbitrary: A)
  case Nil
  then show ?case by simp
next
  case (Cons x X)
  have a: "\<forall>seg\<in>set (norm_step al A x). seg \<noteq> [] \<and> SLASH \<notin> set seg"
  proof
    fix seg
    assume "seg \<in> set (norm_step al A x)"
    then have "seg \<in> set A \<or> (seg = x \<and> x \<noteq> [])"
      by (rule norm_step_set)
    moreover have "SLASH \<notin> set x" using Cons.prems(2) by simp
    ultimately show "seg \<noteq> [] \<and> SLASH \<notin> set seg"
      using Cons.prems(1) by blast
  qed
  have b: "\<forall>x\<in>set X. SLASH \<notin> set x" using Cons.prems(2) by simp
  have "\<forall>seg\<in>set (foldl (norm_step al) (norm_step al A x) X). seg \<noteq> [] \<and> SLASH \<notin> set seg"
    using a b by (rule Cons.IH)
  then show ?case by simp
qed

lemma nstack_fixed: "foldl (norm_step al) [] (nstack al p) = nstack al p"
  unfolding nstack_def using norm_fold_fixed [of al "[]"] by simp

lemma nstack_segs: "\<forall>seg\<in>set (nstack al p). seg \<noteq> [] \<and> SLASH \<notin> set seg"
  unfolding nstack_def split_str_def
  using norm_fold_segs [of "[]" "split_ne [SLASH] p" al] split_ne_elems [of _ SLASH p]
  by auto

lemma nstack_app:
  "nstack al (a @ SLASH # b) = foldl (norm_step al) (nstack al a) (split_str [SLASH] b)"
  by (simp add: nstack_def split_str_def split_ne_app_sep)

lemma normalizeString_nstack: "normalizeString p al = join_str [SLASH] (nstack al p)"
  by (simp add: normalizeString_def nstack_def)




lemma common_scan_diff: "a \<noteq> b \<Longrightarrow> common_scan (a # A) (b # B) i l = (i, l)"
  by simp

lemma common_scan_prefix:
  "X = [] \<or> last X = SLASH \<Longrightarrow>
   common_scan (X @ A) (X @ B) i l =
     common_scan A B (i + length X) (if X = [] then l else int (i + length X) - 1)"
proof (induction X arbitrary: i l)
  case Nil
  show ?case by simp
next
  case (Cons x X)
  show ?case
  proof (cases "X = []")
    case True
    with Cons.prems show ?thesis by simp
  next
    case False
    with Cons.prems have "last X = SLASH" by simp
    then have "common_scan (X @ A) (X @ B) (Suc i) (if x = SLASH then int i else l) =
       common_scan A B (Suc i + length X) (int (Suc i + length X) - 1)"
      using Cons.IH [of "Suc i" "if x = SLASH then int i else l"] False by simp
    then show ?thesis by simp
  qed
qed

lemma relative_out_at:
  "relative_out (SLASH # X @ A) (int (length X) - 1) =
     join_str [SLASH] (replicate (Suc (length (filter (\<lambda>c. c = SLASH) A))) [DOT, DOT])"
proof -
  have "nat (1 + (int (length X) - 1) + 1) = Suc (length X)" by simp
  then show ?thesis
    unfolding relative_out_def Let_def by simp
qed

lemma relative_core_else:
  assumes "common_scan (take len (drop 1 from)) (take len (drop 1 to)) 0 (- 1) = (i, lcs)"
    and "len = (if length from - 1 < length to - 1 then length from - 1 else length to - 1)"
    and "i \<noteq> len"
  shows "relative_core from to = relative_out from lcs @ drop (nat (1 + lcs)) to"
  unfolding relative_core_def Let_def
  unfolding assms(2) [symmetric]
  unfolding assms(1) prod.case
  using assms(3) by simp

lemma drop_to_last_sep:
  "X = [] \<or> last X = SLASH \<Longrightarrow> drop (length X) (SLASH # X @ B) = SLASH # B"
proof (cases "X = []")
  case True
  then show ?thesis by simp
next
  case False
  assume "X = [] \<or> last X = SLASH"
  with False have "X = butlast X @ [SLASH]"
    using append_butlast_last_id [of X] by simp
  then obtain Y where Y: "X = Y @ [SLASH]" ..
  show ?thesis unfolding Y by simp
qed

lemma relative_core_diverge:
  assumes X: "X = [] \<or> last X = SLASH" and ab: "a \<noteq> b"
  shows "relative_core (SLASH # X @ a # A) (SLASH # X @ b # B) =
     join_str [SLASH] (replicate (Suc (length (filter (\<lambda>c. c = SLASH) (a # A)))) [DOT, DOT])
       @ SLASH # b # B"
proof -
  let ?from = "SLASH # X @ a # A" and ?to = "SLASH # X @ b # B"
  define len where "len = (if length ?from - 1 < length ?to - 1
     then length ?from - 1 else length ?to - 1)"
  define k where "k = len - Suc (length X)"
  have len: "len = length X + Suc k"
    unfolding k_def len_def by auto
  have t1: "take len (drop 1 ?from) = X @ a # take k A"
    by (simp add: len)
  have t2: "take len (drop 1 ?to) = X @ b # take k B"
    by (simp add: len)
  have "common_scan (X @ a # take k A) (X @ b # take k B) 0 (- 1)
      = common_scan (a # take k A) (b # take k B) (0 + length X)
          (if X = [] then - 1 else int (0 + length X) - 1)"
    by (rule common_scan_prefix [OF X])
  also have "\<dots> = (length X, int (length X) - 1)"
    using ab by simp
  finally have scan: "common_scan (take len (drop 1 ?from)) (take len (drop 1 ?to)) 0 (- 1)
      = (length X, int (length X) - 1)"
    unfolding t1 t2 .
  have ne: "length X \<noteq> len" using len by simp
  have d: "drop (nat (1 + (int (length X) - 1))) ?to = SLASH # b # B"
    using drop_to_last_sep [OF X, of "b # B"] by simp
  have "relative_core ?from ?to =
      relative_out ?from (int (length X) - 1) @ drop (nat (1 + (int (length X) - 1))) ?to"
    using scan len_def ne by (rule relative_core_else)
  then show ?thesis
    unfolding d relative_out_at [of X "a # A"] .
qed




lemma stack_prefix_last: "stack_prefix S = [] \<or> last (stack_prefix S) = SLASH"
  by (simp add: stack_prefix_def)

lemma join_str_stack_prefix:
  "T \<noteq> [] \<Longrightarrow> join_str [SLASH] (S @ T) = stack_prefix S @ join_str [SLASH] T"
  by (simp add: stack_prefix_def join_str_append)

lemma posix_resolve_relative_arg:
  assumes "cwd \<noteq> []" "hd cwd = SLASH" "p \<noteq> []" "hd p \<noteq> SLASH"
  shows "posix_resolve cwd [p] =
     SLASH # join_str [SLASH]
       (foldl (norm_step False) (nstack False cwd) (split_str [SLASH] (p @ [SLASH])))"
proof -
  have "resolve_loop (rev [p] @ [cwd]) [] = (cwd @ SLASH # (p @ [SLASH]), True)"
    using assms by simp
  then show ?thesis
    unfolding posix_resolve_def
    by (simp add: normalizeString_nstack nstack_app del: resolve_loop.simps)
qed

lemma posix_resolve_absolute_arg:
  assumes "p \<noteq> []" "hd p = SLASH"
  shows "posix_resolve cwd [p] = SLASH # normalizeString (p @ [SLASH]) False"
proof -
  have "resolve_loop (rev [p] @ [cwd]) [] = (p @ [SLASH], True)"
    using assms by simp
  then show ?thesis
    unfolding posix_resolve_def by (simp del: resolve_loop.simps)
qed

lemma posix_relative_test_models:
  assumes "cwd \<noteq> []" "hd cwd = SLASH"
  shows "posix_relative cwd (u ''test/models'') (u ''lib/models/user.dart'')
     = u ''../../lib/models/user.dart''"
proof -
  let ?X = "stack_prefix (nstack False cwd)"
  have f: "posix_resolve cwd [u ''test/models''] = SLASH # ?X @ u ''test/models''"
    using posix_resolve_relative_arg [OF assms, of "u ''test/models''"]
      join_str_stack_prefix [of "[u ''test'', u ''models'']" "nstack False cwd"]
    by (simp add: u_def SLASH_def DOT_def split_str_def norm_step_def)
  have t: "posix_resolve cwd [u ''lib/models/user.dart''] = SLASH # ?X @ u ''lib/models/user.dart''"
    using posix_resolve_relative_arg [OF assms, of "u ''lib/models/user.dart''"]
      join_str_stack_prefix [of "[u ''lib'', u ''models'', u ''user.dart'']" "nstack False cwd"]
    by (simp add: u_def SLASH_def DOT_def split_str_def norm_step_def)
  have c: "relative_core (SLASH # ?X @ u ''test/models'') (SLASH # ?X @ u ''lib/models/user.dart'')
      = u ''../../lib/models/user.dart''"
    using relative_core_diverge [OF stack_prefix_last, of "0x74" "0x6C" "nstack False cwd"
        "u ''est/models''" "u ''ib/models/user.dart''"]
    by (simp add: u_def SLASH_def DOT_def)
  show ?thesis
    unfolding posix_relative_def Let_def f t c
    by (simp add: u_def)
qed




lemmas str_eval = u_def SLASH_def DOT_def
lemmas norm_eval = normalizeString_def split_str_def norm_step_def posix_normalize_def posix_join_def
lemmas rel_eval = posix_relative_def posix_resolve_def relative_core_def relative_out_def char_at_def

lemma posix_sel:
  "sep (posix cwd) = [SLASH]" "join (posix cwd) = posix_join"
  "dirname (posix cwd) = posix_dirname" "relative (posix cwd) = posix_relative cwd"
  "basename (posix cwd) = posix_basename" "extname (posix cwd) = posix_extname"
  by (simp_all add: posix_def)

lemma user_dart_parts:
  "posix_extname (u ''/proj/lib/models/user.dart'') = u ''.dart''"
  "posix_basename (u ''/proj/lib/models/user.dart'') (u ''.dart'') = u ''user''"
  by code_simp+

lemma user_dart_relative:
  "posix_relative cwd (u ''/proj'') (u ''/proj/lib/models/user.dart'') = u ''lib/models/user.dart''"
  by (simp add: rel_eval norm_eval str_eval)

lemma user_dart_under_lib: "isUnderLibDirectory (posix cwd) (u ''lib/models/user.dart'')"
  by (simp add: isUnderLibDirectory_def posix_sel str_eval)

lemma lib_testPath:
  "testPath (calculateTestFileInfoForLib P root src rel fn ext pkg) =
     join P [join P [root, u ''test'', dirname P (drop 4 rel)], fn @ u ''_test'' @ ext]"
  by (simp add: calculateTestFileInfoForLib_def Let_def)

lemma lib_importPath_package:
  "name \<noteq> [] \<Longrightarrow>
   importPath (calculateTestFileInfoForLib P root src rel fn ext (Some name)) =
     u ''package:'' @ name @ u ''/'' @ join_str (u ''/'') (split_str (sep P) (drop 4 rel))"
  by (simp add: calculateTestFileInfoForLib_def Let_def)

lemma lib_importPath_relative:
  "importPath (calculateTestFileInfoForLib P root src rel fn ext None) =
     join_str (u ''/'') (split_str (sep P)
       (relative P
          (dirname P (relative P root
             (testPath (calculateTestFileInfoForLib P root src rel fn ext None))))
          (relative P root src)))"
  by (simp add: calculateTestFileInfoForLib_def Let_def)

lemma user_dart_testPath:
  "testPath (calculateTestFileInfoForLib (posix cwd) (u ''/proj'') (u ''/proj/lib/models/user.dart'')
      (u ''lib/models/user.dart'') (u ''user'') (u ''.dart'') pkg) = u ''/proj/test/models/user_test.dart''"
  unfolding lib_testPath posix_sel
  by (simp add: posix_dirname_def norm_eval str_eval)

lemma user_dart_package_import:
  "importPath (calculateTestFileInfoForLib (posix cwd) (u ''/proj'') (u ''/proj/lib/models/user.dart'')
      (u ''lib/models/user.dart'') (u ''user'') (u ''.dart'') (Some (u ''my_app'')))
    = u ''package:my_app/models/user.dart''"
proof -
  have "u ''my_app'' \<noteq> []" by (simp add: u_def)
  then show ?thesis
    by (simp add: lib_importPath_package posix_sel split_str_def str_eval)
qed

lemma user_test_relative:
  "posix_relative cwd (u ''/proj'') (u ''/proj/test/models/user_test.dart'') = u ''test/models/user_test.dart''"
  by (simp add: rel_eval norm_eval str_eval)

lemma user_test_dirname: "posix_dirname (u ''test/models/user_test.dart'') = u ''test/models''"
  by (simp add: posix_dirname_def str_eval)

lemma user_dart_relative_import:
  assumes "cwd \<noteq> []" "hd cwd = SLASH"
  shows "importPath (calculateTestFileInfoForLib (posix cwd) (u ''/proj'') (u ''/proj/lib/models/user.dart'')
      (u ''lib/models/user.dart'') (u ''user'') (u ''.dart'') None)
    = u ''../../lib/models/user.dart''"
proof -
  have sl: "join_str (u ''/'') (split_str [SLASH] (u ''../../lib/models/user.dart'')) = u ''../../lib/models/user.dart''"
    by (simp add: split_str_def str_eval)
  show ?thesis
    unfolding lib_importPath_relative user_dart_testPath posix_sel
      user_test_relative user_test_dirname user_dart_relative
      posix_relative_test_models [OF assms] sl ..
qed




lemma nstack_Nil: "nstack al [] = []"
  by (simp add: nstack_def split_str_def norm_step_def)

lemma nstack_leading_slash: "nstack al (SLASH # p) = nstack al p"
  by (simp add: nstack_def split_str_def norm_step_def)

lemma last_not_sep: "c \<notin> set t \<Longrightarrow> t \<noteq> [] \<Longrightarrow> last t \<noteq> c"
  using last_in_set [of t] by auto

lemma hd_join_str:
  "S \<noteq> [] \<Longrightarrow> \<forall>seg\<in>set S. seg \<noteq> [] \<and> c \<notin> set seg \<Longrightarrow> hd (join_str [c] S) \<noteq> c"
  by (cases "([c], S)" rule: join_str.cases) (auto simp: neq_Nil_conv)

lemma join_str_nonempty:
  "S \<noteq> [] \<Longrightarrow> \<forall>seg\<in>set S. seg \<noteq> [] \<Longrightarrow> join_str sp S \<noteq> []"
  by (cases "(sp, S)" rule: join_str.cases) auto

lemma posix_normalize_stack:
  assumes "path \<noteq> []" "last path \<noteq> SLASH"
    and "join_str [SLASH] (nstack (hd path \<noteq> SLASH) path) \<noteq> []"
  shows "posix_normalize path =
     (if hd path = SLASH then SLASH # join_str [SLASH] (nstack (hd path \<noteq> SLASH) path)
      else join_str [SLASH] (nstack (hd path \<noteq> SLASH) path))"
  using assms by (simp add: posix_normalize_def Let_def normalizeString_nstack)

lemma norm_step_push:
  "seg \<noteq> [] \<Longrightarrow> seg \<noteq> [DOT] \<Longrightarrow> seg \<noteq> [DOT, DOT] \<Longrightarrow> norm_step al S seg = S @ [seg]"
  by (simp add: norm_step_def)

lemma norm_step_test: "norm_step al S (u ''test'') = S @ [u ''test'']"
  by (rule norm_step_push) (simp_all add: str_eval)

lemma split_test_dot: "split_str [SLASH] (u ''test/.'') = [u ''test'', [DOT]]"
  by (simp add: split_str_def str_eval)

lemma split_test_name:
  "SLASH \<notin> set t \<Longrightarrow> split_str [SLASH] (u ''test'' @ SLASH # t) = [u ''test'', t]"
  using split_ne_app_sep [of SLASH "u ''test''" t]
  by (simp add: split_str_def split_ne_nosep) (simp add: str_eval)

lemma nstack_join_fixed:
  assumes "S \<noteq> []" "foldl (norm_step al) [] S = S" "\<forall>seg\<in>set S. SLASH \<notin> set seg"
  shows "nstack al (join_str [SLASH] S) = S"
  using assms by (simp add: nstack_def split_str_def split_join_single)

lemma posix_join_test_dot_name:
  assumes t: "SLASH \<notin> set t" "t \<noteq> []" "t \<noteq> [DOT]" "t \<noteq> [DOT, DOT]"
  shows "posix_join [posix_join [root, u ''test'', [DOT]], t] = posix_join [root, u ''test'', t]"
proof (cases "root = []")
  case True
  have "posix_join [[], u ''test'', [DOT]] = u ''test''"
    by (simp add: norm_eval str_eval)
  with True t show ?thesis
    by (simp add: posix_join_def str_eval)
next
  case False
  define al where "al = (hd root \<noteq> SLASH)"
  define S0 where "S0 = nstack al root"
  have test_ne: "u ''test'' \<noteq> []" by (simp add: u_def)
  have test_ns: "SLASH \<notin> set (u ''test'')" by (simp add: str_eval)
  have S0_segs: "\<forall>seg\<in>set S0. seg \<noteq> [] \<and> SLASH \<notin> set seg"
    unfolding S0_def by (rule nstack_segs)
  have S0_fixed: "foldl (norm_step al) [] S0 = S0"
    unfolding S0_def by (rule nstack_fixed)
  let ?S1 = "S0 @ [u ''test'']"
  let ?p1 = "join_str [SLASH] ?S1"
  have S1_segs: "\<forall>seg\<in>set ?S1. seg \<noteq> [] \<and> SLASH \<notin> set seg"
    using S0_segs test_ne test_ns by simp
  have S1_fixed: "foldl (norm_step al) [] ?S1 = ?S1"
    using S0_fixed by (simp add: norm_step_test)
  have p1_ne: "?p1 \<noteq> []"
    using S1_segs by (intro join_str_nonempty) auto
  have p1_hd: "hd ?p1 \<noteq> SLASH"
    using S1_segs by (intro hd_join_str) auto
  have p1_stack: "nstack al ?p1 = ?S1"
    using S1_fixed S1_segs by (intro nstack_join_fixed) auto
  \<comment> \<open>the inner join\<close>
  let ?J1 = "root @ SLASH # u ''test/.''"
  have J1: "join_str [SLASH] [root, u ''test'', [DOT]] = ?J1"
    by (simp add: str_eval)
  have J1_hd: "hd ?J1 = hd root" using False by simp
  have J1_last: "last ?J1 \<noteq> SLASH" by (simp add: str_eval)
  have J1_stack: "nstack al ?J1 = ?S1"
    unfolding nstack_app split_test_dot S0_def [symmetric]
    by (simp add: norm_step_test) (simp add: norm_step_def)
  have inner: "posix_normalize ?J1 = (if hd root = SLASH then SLASH # ?p1 else ?p1)"
    using posix_normalize_stack [of ?J1] J1_last J1_stack p1_ne
    unfolding J1_hd al_def [symmetric] by simp
  define D where "D = (if hd root = SLASH then SLASH # ?p1 else ?p1)"
  have D_ne: "D \<noteq> []" using p1_ne by (simp add: D_def)
  have D_hd: "(hd D \<noteq> SLASH) = al" using p1_hd by (simp add: D_def al_def)
  have D_stack: "nstack al D = ?S1"
    using p1_stack by (simp add: D_def nstack_leading_slash)
  have lhs1: "posix_join [root, u ''test'', [DOT]] = D"
    using False test_ne J1 inner by (simp add: posix_join_def D_def)
  \<comment> \<open>the outer join\<close>
  let ?J2 = "D @ SLASH # t"
  let ?S2 = "S0 @ [u ''test'', t]"
  have t_split: "split_str [SLASH] t = [t]"
    using t(1) by (simp add: split_str_def split_ne_nosep)
  have J2_hd: "(hd ?J2 \<noteq> SLASH) = al" using D_ne D_hd by simp
  have J2_last: "last ?J2 \<noteq> SLASH" using last_not_sep [OF t(1,2)] t(2) by simp
  have J2_stack: "nstack al ?J2 = ?S2"
    unfolding nstack_app D_stack t_split using t by (simp add: norm_step_push)
  have S2_ne: "join_str [SLASH] ?S2 \<noteq> []"
    using S0_segs test_ne t by (intro join_str_nonempty) auto
  have outer: "posix_normalize ?J2 = (if al then join_str [SLASH] ?S2 else SLASH # join_str [SLASH] ?S2)"
    using posix_normalize_stack [of ?J2] J2_last J2_stack S2_ne J2_hd by auto
  have lhs: "posix_join [D, t] = (if al then join_str [SLASH] ?S2 else SLASH # join_str [SLASH] ?S2)"
    using D_ne t outer by (simp add: posix_join_def)
  \<comment> \<open>the direct join\<close>
  let ?J3 = "root @ SLASH # (u ''test'' @ SLASH # t)"
  have J3: "join_str [SLASH] [root, u ''test'', t] = ?J3" by simp
  have J3_hd: "(hd ?J3 \<noteq> SLASH) = al" using False by (simp add: al_def)
  have J3_last: "last ?J3 \<noteq> SLASH" using last_not_sep [OF t(1,2)] t(2) by simp
  have J3_stack: "nstack al ?J3 = ?S2"
    unfolding nstack_app split_test_name [OF t(1)] S0_def [symmetric]
    using t by (simp add: norm_step_test norm_step_push)
  have direct: "posix_normalize ?J3 = (if al then join_str [SLASH] ?S2 else SLASH # join_str [SLASH] ?S2)"
    using posix_normalize_stack [of ?J3] J3_last J3_stack S2_ne J3_hd by auto
  have rhs: "posix_join [root, u ''test'', t] = (if al then join_str [SLASH] ?S2 else SLASH # join_str [SLASH] ?S2)"
    using False test_ne t J3 direct by (simp add: posix_join_def)
  show ?thesis unfolding lhs1 lhs rhs ..
qed

section \<open>Properties of the path deriver\<close>

lemma posix_dirname_no_slash: "SLASH \<notin> set p \<Longrightarrow> posix_dirname p = [DOT]"
proof (cases p)
  case Nil
  then show ?thesis by (simp add: posix_dirname_def)
next
  case (Cons c cs)
  assume ns: "SLASH \<notin> set p"
  with Cons have a: "dropWhile (\<lambda>c. c = SLASH) (rev cs) = rev cs"
    by (cases "rev cs") auto
  have b: "dropWhile (\<lambda>c. c \<noteq> SLASH) (rev cs) = []"
    using ns Cons by auto
  have c: "c \<noteq> SLASH" using ns Cons by auto
  show ?thesis using Cons c by (simp add: posix_dirname_def a b)
qed

lemma test_name_normal:
  "fn @ u ''_test'' @ ext \<noteq> []" "fn @ u ''_test'' @ ext \<noteq> [DOT]"
  "fn @ u ''_test'' @ ext \<noteq> [DOT, DOT]"
proof -
  have m: "UNDERSCORE \<in> set (fn @ u ''_test'' @ ext)" by (simp add: u_def UNDERSCORE_def)
  have d: "UNDERSCORE \<notin> set [DOT]" "UNDERSCORE \<notin> set [DOT, DOT]"
    by (simp_all add: UNDERSCORE_def DOT_def)
  show "fn @ u ''_test'' @ ext \<noteq> []" using m by auto
  show "fn @ u ''_test'' @ ext \<noteq> [DOT]" using m d(1) by metis
  show "fn @ u ''_test'' @ ext \<noteq> [DOT, DOT]" using m d(2) by metis
qed

lemma nonlib_value:
  "calculateTestFileInfoForNonLib P src fn ext =
     \<lparr>testPath = join P [dirname P src, fn @ u ''_test'' @ ext],
      importPath = u ''./'' @ fn @ ext\<rparr>"
  by (simp add: calculateTestFileInfoForNonLib_def)

lemma handle_branch:
  "handleCreateTestCommand_testFileInfo P root src pkg =
     (if isUnderLibDirectory P (relative P root src)
      then calculateTestFileInfoForLib P root src (relative P root src)
             (basename P src (extname P src)) (extname P src) pkg
      else calculateTestFileInfoForNonLib P src (basename P src (extname P src)) (extname P src))"
  by (simp add: handleCreateTestCommand_testFileInfo_def Let_def)

lemma handle_user_dart:
  "handleCreateTestCommand_testFileInfo (posix cwd) (u ''/proj'') (u ''/proj/lib/models/user.dart'') pkg
   = calculateTestFileInfoForLib (posix cwd) (u ''/proj'') (u ''/proj/lib/models/user.dart'')
      (u ''lib/models/user.dart'') (u ''user'') (u ''.dart'') pkg"
  unfolding handle_branch posix_sel user_dart_parts user_dart_relative
  using user_dart_under_lib [of cwd] by (simp add: posix_sel)

lemma TestFileInfo_eqI:
  "testPath (r :: TestFileInfo) = a \<Longrightarrow> importPath r = b \<Longrightarrow> r = \<lparr>testPath = a, importPath = b\<rparr>"
  by (cases r) simp

text \<open>
  C2: for workspace root \<open>/proj\<close>, source file \<open>/proj/lib/models/user.dart\<close> and
  package name \<open>my_app\<close> the derivation gives the test path
  \<open>/proj/test/models/user_test.dart\<close> and the import path
  \<open>package:my_app/models/user.dart\<close>, whatever the working directory.  In general, on
  a host whose separator is the code unit \<open>c\<close>, a resolved (non-empty) package name
  gives the import path \<open>package:<name>/\<close> followed by the path under \<open>lib\<close> with
  every \<open>c\<close> turned into a forward slash, and the test path is the test file name
  \<open><base>_test<ext>\<close> joined to \<open><root>/test/<directory under lib>\<close>.
\<close>
theorem lib_package_import:
  "(sep P = [c] \<and> name \<noteq> [] \<longrightarrow>
      calculateTestFileInfoForLib P root src rel fn ext (Some name) =
        \<lparr>testPath = join P [join P [root, u ''test'', dirname P (drop 4 rel)], fn @ u ''_test'' @ ext],
         importPath = u ''package:'' @ name @ u ''/''
                        @ map (\<lambda>x. if x = c then SLASH else x) (drop 4 rel)\<rparr>)
   \<and> handleCreateTestCommand_testFileInfo (posix cwd) (u ''/proj'')
        (u ''/proj/lib/models/user.dart'') (Some (u ''my_app'')) =
        \<lparr>testPath = u ''/proj/test/models/user_test.dart'',
         importPath = u ''package:my_app/models/user.dart''\<rparr>"
proof (intro conjI impI)
  assume h: "sep P = [c] \<and> name \<noteq> []"
  have "join_str (u ''/'') (split_str (sep P) (drop 4 rel))
      = map (\<lambda>x. if x = c then SLASH else x) (drop 4 rel)"
    using h join_split_single [of SLASH c "drop 4 rel"]
    by (simp add: split_str_def u_def SLASH_def)
  then show "calculateTestFileInfoForLib P root src rel fn ext (Some name) =
        \<lparr>testPath = join P [join P [root, u ''test'', dirname P (drop 4 rel)], fn @ u ''_test'' @ ext],
         importPath = u ''package:'' @ name @ u ''/''
                        @ map (\<lambda>x. if x = c then SLASH else x) (drop 4 rel)\<rparr>"
    using h by (intro TestFileInfo_eqI) (simp_all add: lib_testPath lib_importPath_package)
next
  show "handleCreateTestCommand_testFileInfo (posix cwd) (u ''/proj'')
        (u ''/proj/lib/models/user.dart'') (Some (u ''my_app'')) =
        \<lparr>testPath = u ''/proj/test/models/user_test.dart'',
         importPath = u ''package:my_app/models/user.dart''\<rparr>"
    unfolding handle_user_dart
    by (intro TestFileInfo_eqI user_dart_testPath user_dart_package_import)
qed

theorem lib_package_import_witness:
  "sep (posix (u ''/home/dev'')) = [SLASH] \<and> u ''my_app'' \<noteq> []
   \<and> importPath (calculateTestFileInfoForLib (posix (u ''/home/dev'')) (u ''/proj'')
        (u ''/proj/lib/models/user.dart'') (u ''lib/models/user.dart'') (u ''user'') (u ''.dart'')
        (Some (u ''my_app''))) = u ''package:my_app/models/user.dart''"
proof -
  have a: "sep (posix (u ''/home/dev'')) = [SLASH] \<and> u ''my_app'' \<noteq> []"
    by (simp add: posix_sel u_def)
  have "calculateTestFileInfoForLib (posix (u ''/home/dev'')) (u ''/proj'')
        (u ''/proj/lib/models/user.dart'') (u ''lib/models/user.dart'') (u ''user'') (u ''.dart'')
        (Some (u ''my_app'')) =
        \<lparr>testPath = join (posix (u ''/home/dev''))
            [join (posix (u ''/home/dev'')) [u ''/proj'', u ''test'',
               dirname (posix (u ''/home/dev'')) (drop 4 (u ''lib/models/user.dart''))],
             u ''user'' @ u ''_test'' @ u ''.dart''],
         importPath = u ''package:'' @ u ''my_app'' @ u ''/''
                        @ map (\<lambda>x. if x = SLASH then SLASH else x) (drop 4 (u ''lib/models/user.dart''))\<rparr>"
    using lib_package_import [of "posix (u ''/home/dev'')" SLASH "u ''my_app''" "u ''/proj''"
        "u ''/proj/lib/models/user.dart''" "u ''lib/models/user.dart''" "u ''user''" "u ''.dart''"] a
    by blast
  then have "importPath (calculateTestFileInfoForLib (posix (u ''/home/dev'')) (u ''/proj'')
        (u ''/proj/lib/models/user.dart'') (u ''lib/models/user.dart'') (u ''user'') (u ''.dart'')
        (Some (u ''my_app''))) = u ''package:'' @ u ''my_app'' @ u ''/''
                        @ map (\<lambda>x. if x = SLASH then SLASH else x) (drop 4 (u ''lib/models/user.dart''))"
    by simp
  also have "\<dots> = u ''package:my_app/models/user.dart''"
    by (simp add: u_def)
  finally show ?thesis using a by blast
qed


lemma replace_sep_no_sep:
  "c \<noteq> d \<Longrightarrow> c \<notin> set (map (\<lambda>x. if x = c then d else x) s)"
  by (induction s) auto

text \<open>
  C3: without a package name the import path of a source under \<open>lib\<close> is the path
  from the directory of the test file to the source, both taken relative to the workspace
  root, with every separator \<open>c\<close> of the host turned into a forward slash, so that no
  separator other than the forward slash is left in it.  For root \<open>/proj\<close> and source
  \<open>/proj/lib/models/user.dart\<close> it is \<open>../../lib/models/user.dart\<close>, in every
  process whose working directory is an absolute path.
\<close>
theorem lib_relative_import:
  "(sep P = [c] \<longrightarrow>
      importPath (calculateTestFileInfoForLib P root src rel fn ext None) =
        map (\<lambda>x. if x = c then SLASH else x)
          (relative P
             (dirname P (relative P root
                (join P [join P [root, u ''test'', dirname P (drop 4 rel)], fn @ u ''_test'' @ ext])))
             (relative P root src))
      \<and> (c = SLASH \<or> c \<notin> set (importPath (calculateTestFileInfoForLib P root src rel fn ext None))))
   \<and> (cwd \<noteq> [] \<and> hd cwd = SLASH \<longrightarrow>
        handleCreateTestCommand_testFileInfo (posix cwd) (u ''/proj'')
          (u ''/proj/lib/models/user.dart'') None =
          \<lparr>testPath = u ''/proj/test/models/user_test.dart'',
           importPath = u ''../../lib/models/user.dart''\<rparr>)"
proof (intro conjI impI)
  assume h: "sep P = [c]"
  let ?r = "relative P
             (dirname P (relative P root
                (join P [join P [root, u ''test'', dirname P (drop 4 rel)], fn @ u ''_test'' @ ext])))
             (relative P root src)"
  have "join_str (u ''/'') (split_str (sep P) ?r) = map (\<lambda>x. if x = c then SLASH else x) ?r"
    using h join_split_single [of SLASH c ?r]
    by (simp add: split_str_def u_def SLASH_def)
  then show eq: "importPath (calculateTestFileInfoForLib P root src rel fn ext None) =
        map (\<lambda>x. if x = c then SLASH else x) ?r"
    by (simp add: lib_importPath_relative lib_testPath)
  show "c = SLASH \<or> c \<notin> set (importPath (calculateTestFileInfoForLib P root src rel fn ext None))"
    unfolding eq using replace_sep_no_sep [of c SLASH ?r] by blast
next
  assume "cwd \<noteq> [] \<and> hd cwd = SLASH"
  then have c: "cwd \<noteq> []" "hd cwd = SLASH" by simp_all
  show "handleCreateTestCommand_testFileInfo (posix cwd) (u ''/proj'')
          (u ''/proj/lib/models/user.dart'') None =
          \<lparr>testPath = u ''/proj/test/models/user_test.dart'',
           importPath = u ''../../lib/models/user.dart''\<rparr>"
    unfolding handle_user_dart
    by (intro TestFileInfo_eqI user_dart_testPath user_dart_relative_import [OF c])
qed

theorem lib_relative_import_witness:
  "u ''/home/dev'' \<noteq> [] \<and> hd (u ''/home/dev'') = SLASH
   \<and> handleCreateTestCommand_testFileInfo (posix (u ''/home/dev'')) (u ''/proj'')
          (u ''/proj/lib/models/user.dart'') None =
          \<lparr>testPath = u ''/proj/test/models/user_test.dart'',
           importPath = u ''../../lib/models/user.dart''\<rparr>"
proof -
  have a: "u ''/home/dev'' \<noteq> [] \<and> hd (u ''/home/dev'') = SLASH"
    by (simp add: u_def SLASH_def)
  with lib_relative_import [of "posix (u ''/home/dev'')" SLASH "u ''/proj''"
      "u ''/proj/lib/models/user.dart''" "u ''lib/models/user.dart''" "u ''user''" "u ''.dart''"
      "u ''/home/dev''"]
  show ?thesis by blast
qed

lemma app_dart_parts:
  "posix_extname (u ''/proj/lib/app.dart'') = u ''.dart''"
  "posix_basename (u ''/proj/lib/app.dart'') (u ''.dart'') = u ''app''"
  by code_simp+

lemma app_dart_relative:
  "posix_relative cwd (u ''/proj'') (u ''/proj/lib/app.dart'') = u ''lib/app.dart''"
  by (simp add: rel_eval norm_eval str_eval)

lemma app_test_join: "posix_join [u ''/proj'', u ''test'', u ''app'' @ u ''_test'' @ u ''.dart'']
    = u ''/proj/test/app_test.dart''"
  by (simp add: norm_eval str_eval)

lemma lib_root_file:
  assumes "SLASH \<notin> set (drop 4 rel)" "SLASH \<notin> set (fn @ ext)"
  shows "testPath (calculateTestFileInfoForLib (posix cwd) root src rel fn ext pkg) =
      posix_join [root, u ''test'', fn @ u ''_test'' @ ext]"
proof -
  have ns: "SLASH \<notin> set (fn @ u ''_test'' @ ext)"
    using assms(2) by (simp add: u_def SLASH_def)
  show ?thesis
    unfolding lib_testPath posix_sel posix_dirname_no_slash [OF assms(1)]
    by (rule posix_join_test_dot_name [OF ns test_name_normal])
qed

text \<open>
  C6: a source file directly under \<open>lib\<close> (no slash in its path under \<open>lib\<close> nor in
  its name) gets its test file directly under \<open><root>/test\<close>: the test path is the join
  of the root, \<open>test\<close> and \<open><base>_test<ext>\<close>, with no directory in between.  For
  root \<open>/proj\<close> and source \<open>/proj/lib/app.dart\<close> the test path is
  \<open>/proj/test/app_test.dart\<close>.
\<close>
theorem lib_root_file_testPath:
  "(SLASH \<notin> set (drop 4 rel) \<and> SLASH \<notin> set (fn @ ext) \<longrightarrow>
      testPath (calculateTestFileInfoForLib (posix cwd) root src rel fn ext pkg) =
        posix_join [root, u ''test'', fn @ u ''_test'' @ ext])
   \<and> testPath (handleCreateTestCommand_testFileInfo (posix cwd) (u ''/proj'')
        (u ''/proj/lib/app.dart'') pkg) = u ''/proj/test/app_test.dart''"
proof (intro conjI impI)
  assume "SLASH \<notin> set (drop 4 rel) \<and> SLASH \<notin> set (fn @ ext)"
  then show "testPath (calculateTestFileInfoForLib (posix cwd) root src rel fn ext pkg) =
        posix_join [root, u ''test'', fn @ u ''_test'' @ ext]"
    using lib_root_file by blast
next
  have under: "isUnderLibDirectory (posix cwd) (u ''lib/app.dart'')"
    by (simp add: isUnderLibDirectory_def posix_sel str_eval)
  have h: "handleCreateTestCommand_testFileInfo (posix cwd) (u ''/proj'') (u ''/proj/lib/app.dart'') pkg
     = calculateTestFileInfoForLib (posix cwd) (u ''/proj'') (u ''/proj/lib/app.dart'')
        (u ''lib/app.dart'') (u ''app'') (u ''.dart'') pkg"
    unfolding handle_branch posix_sel app_dart_parts app_dart_relative
    using under by (simp add: posix_sel)
  have a: "SLASH \<notin> set (drop 4 (u ''lib/app.dart''))" "SLASH \<notin> set (u ''app'' @ u ''.dart'')"
    by (simp_all add: str_eval)
  show "testPath (handleCreateTestCommand_testFileInfo (posix cwd) (u ''/proj'')
        (u ''/proj/lib/app.dart'') pkg) = u ''/proj/test/app_test.dart''"
    unfolding h lib_root_file [OF a] app_test_join ..
qed

theorem lib_root_file_testPath_witness:
  "SLASH \<notin> set (drop 4 (u ''lib/app.dart'')) \<and> SLASH \<notin> set (u ''app'' @ u ''.dart'')
   \<and> testPath (calculateTestFileInfoForLib (posix (u ''/home/dev'')) (u ''/proj'')
        (u ''/proj/lib/app.dart'') (u ''lib/app.dart'') (u ''app'') (u ''.dart'') None)
       = u ''/proj/test/app_test.dart''"
proof -
  have a: "SLASH \<notin> set (drop 4 (u ''lib/app.dart'')) \<and> SLASH \<notin> set (u ''app'' @ u ''.dart'')"
    by (simp add: str_eval)
  with lib_root_file_testPath [of "u ''lib/app.dart''" "u ''app''" "u ''.dart''"
      "u ''/home/dev''" "u ''/proj''" "u ''/proj/lib/app.dart''" None]
  have "testPath (calculateTestFileInfoForLib (posix (u ''/home/dev'')) (u ''/proj'')
        (u ''/proj/lib/app.dart'') (u ''lib/app.dart'') (u ''app'') (u ''.dart'') None)
       = posix_join [u ''/proj'', u ''test'', u ''app'' @ u ''_test'' @ u ''.dart'']"
    by blast
  with a show ?thesis unfolding app_test_join by blast
qed

lemma tool_dart_parts:
  "posix_extname (u ''/proj/scripts/tool.dart'') = u ''.dart''"
  "posix_basename (u ''/proj/scripts/tool.dart'') (u ''.dart'') = u ''tool''"
  "posix_dirname (u ''/proj/scripts/tool.dart'') = u ''/proj/scripts''"
  "posix_join [u ''/proj/scripts'', u ''tool'' @ u ''_test'' @ u ''.dart''] = u ''/proj/scripts/tool_test.dart''"
  "u ''./'' @ u ''tool'' @ u ''.dart'' = u ''./tool.dart''"
  by code_simp+

lemma tool_dart_relative:
  "posix_relative cwd (u ''/proj'') (u ''/proj/scripts/tool.dart'') = u ''scripts/tool.dart''"
  by (simp add: rel_eval norm_eval str_eval)

lemma tool_dart_not_lib: "\<not> isUnderLibDirectory (posix cwd) (u ''scripts/tool.dart'')"
  by (simp add: isUnderLibDirectory_def posix_sel str_eval)

text \<open>
  C7: for every source file that is not under the library directory the test file is
  \<open><base>_test<ext>\<close> joined to the directory of the source, and the import path is
  \<open>./<base><ext>\<close>; source \<open>/proj/scripts/tool.dart\<close> gives the test path
  \<open>/proj/scripts/tool_test.dart\<close> and the import path \<open>./tool.dart\<close>.
\<close>
theorem nonlib_sibling_test:
  "(\<not> isUnderLibDirectory P (relative P root src) \<longrightarrow>
      handleCreateTestCommand_testFileInfo P root src pkg =
        \<lparr>testPath = join P [dirname P src,
                     basename P src (extname P src) @ u ''_test'' @ extname P src],
         importPath = u ''./'' @ basename P src (extname P src) @ extname P src\<rparr>)
   \<and> calculateTestFileInfoForNonLib P src fn ext =
        \<lparr>testPath = join P [dirname P src, fn @ u ''_test'' @ ext],
         importPath = u ''./'' @ fn @ ext\<rparr>
   \<and> handleCreateTestCommand_testFileInfo (posix cwd) (u ''/proj'')
        (u ''/proj/scripts/tool.dart'') pkg =
        \<lparr>testPath = u ''/proj/scripts/tool_test.dart'', importPath = u ''./tool.dart''\<rparr>"
proof (intro conjI impI)
  assume "\<not> isUnderLibDirectory P (relative P root src)"
  then show "handleCreateTestCommand_testFileInfo P root src pkg =
        \<lparr>testPath = join P [dirname P src,
                     basename P src (extname P src) @ u ''_test'' @ extname P src],
         importPath = u ''./'' @ basename P src (extname P src) @ extname P src\<rparr>"
    by (simp add: handle_branch nonlib_value)
next
  show "calculateTestFileInfoForNonLib P src fn ext =
        \<lparr>testPath = join P [dirname P src, fn @ u ''_test'' @ ext],
         importPath = u ''./'' @ fn @ ext\<rparr>"
    by (rule nonlib_value)
next
  have "handleCreateTestCommand_testFileInfo (posix cwd) (u ''/proj'')
        (u ''/proj/scripts/tool.dart'') pkg =
      calculateTestFileInfoForNonLib (posix cwd) (u ''/proj/scripts/tool.dart'') (u ''tool'') (u ''.dart'')"
    unfolding handle_branch posix_sel tool_dart_parts tool_dart_relative
    using tool_dart_not_lib [of cwd] by (simp add: posix_sel)
  then show "handleCreateTestCommand_testFileInfo (posix cwd) (u ''/proj'')
        (u ''/proj/scripts/tool.dart'') pkg =
        \<lparr>testPath = u ''/proj/scripts/tool_test.dart'', importPath = u ''./tool.dart''\<rparr>"
    unfolding nonlib_value posix_sel tool_dart_parts .
qed

theorem nonlib_sibling_test_witness:
  "\<not> isUnderLibDirectory (posix (u ''/home/dev''))
       (relative (posix (u ''/home/dev'')) (u ''/proj'') (u ''/proj/scripts/tool.dart''))
   \<and> handleCreateTestCommand_testFileInfo (posix (u ''/home/dev'')) (u ''/proj'')
        (u ''/proj/scripts/tool.dart'') None =
        \<lparr>testPath = u ''/proj/scripts/tool_test.dart'', importPath = u ''./tool.dart''\<rparr>"
proof -
  let ?P = "posix (u ''/home/dev'')"
  have a: "\<not> isUnderLibDirectory ?P (relative ?P (u ''/proj'') (u ''/proj/scripts/tool.dart''))"
    unfolding posix_sel tool_dart_relative by (rule tool_dart_not_lib)
  with nonlib_sibling_test [of ?P "u ''/proj''" "u ''/proj/scripts/tool.dart''" None]
  have "handleCreateTestCommand_testFileInfo ?P (u ''/proj'') (u ''/proj/scripts/tool.dart'') None =
        \<lparr>testPath = join ?P [dirname ?P (u ''/proj/scripts/tool.dart''),
                     basename ?P (u ''/proj/scripts/tool.dart'') (extname ?P (u ''/proj/scripts/tool.dart''))
                       @ u ''_test'' @ extname ?P (u ''/proj/scripts/tool.dart'')],
         importPath = u ''./'' @ basename ?P (u ''/proj/scripts/tool.dart'')
                        (extname ?P (u ''/proj/scripts/tool.dart''))
                        @ extname ?P (u ''/proj/scripts/tool.dart'')\<rparr>"
    by blast
  then have "handleCreateTestCommand_testFileInfo ?P (u ''/proj'') (u ''/proj/scripts/tool.dart'') None =
        \<lparr>testPath = u ''/proj/scripts/tool_test.dart'', importPath = u ''./tool.dart''\<rparr>"
    unfolding posix_sel tool_dart_parts .
  with a show ?thesis by blast
qed

lemma under_lib_iff:
  assumes "sep P = [c]"
  shows "isUnderLibDirectory P rel \<longleftrightarrow> (\<exists>x rest. rel = u ''lib'' @ x # rest \<and> (x = c \<or> x = SLASH))"
proof
  assume "isUnderLibDirectory P rel"
  then consider "prefix (u ''lib'' @ [c]) rel" | "prefix (u ''lib'' @ [SLASH]) rel"
    using assms by (auto simp: isUnderLibDirectory_def u_def SLASH_def)
  then show "\<exists>x rest. rel = u ''lib'' @ x # rest \<and> (x = c \<or> x = SLASH)"
  proof cases
    case 1
    then obtain rest where "rel = (u ''lib'' @ [c]) @ rest" by (auto simp: prefix_def)
    then show ?thesis by auto
  next
    case 2
    then obtain rest where "rel = (u ''lib'' @ [SLASH]) @ rest" by (auto simp: prefix_def)
    then show ?thesis by auto
  qed
next
  assume "\<exists>x rest. rel = u ''lib'' @ x # rest \<and> (x = c \<or> x = SLASH)"
  then obtain x rest where r: "rel = u ''lib'' @ x # rest" and x: "x = c \<or> x = SLASH" by blast
  from x show "isUnderLibDirectory P rel"
  proof
    assume "x = c"
    then have "prefix (u ''lib'' @ sep P) rel" using r assms by (simp add: prefix_def)
    then show ?thesis by (simp add: isUnderLibDirectory_def)
  next
    assume "x = SLASH"
    then have "rel = u ''lib/'' @ rest" using r by (simp add: u_def SLASH_def)
    then have "prefix (u ''lib/'') rel" by (simp add: prefix_def)
    then show ?thesis by (simp add: isUnderLibDirectory_def)
  qed
qed

lemma under_lib_posix: "isUnderLibDirectory (posix cwd) rel \<longleftrightarrow> prefix (u ''lib/'') rel"
  by (simp add: isUnderLibDirectory_def posix_sel u_def SLASH_def)

lemma library_foo:
  "posix_extname (u ''/proj/library/foo.dart'') = u ''.dart''"
  "posix_basename (u ''/proj/library/foo.dart'') (u ''.dart'') = u ''foo''"
  "posix_dirname (u ''/proj/library/foo.dart'') = u ''/proj/library''"
  "posix_join [u ''/proj/library'', u ''foo'' @ u ''_test'' @ u ''.dart''] = u ''/proj/library/foo_test.dart''"
  "u ''./'' @ u ''foo'' @ u ''.dart'' = u ''./foo.dart''"
  by code_simp+

lemma library_foo_relative:
  "posix_relative cwd (u ''/proj'') (u ''/proj/library/foo.dart'') = u ''library/foo.dart''"
  by (simp add: rel_eval norm_eval str_eval)

lemma libfoo:
  "posix_extname (u ''/proj/libfoo.dart'') = u ''.dart''"
  "posix_basename (u ''/proj/libfoo.dart'') (u ''.dart'') = u ''libfoo''"
  "posix_dirname (u ''/proj/libfoo.dart'') = u ''/proj''"
  "posix_join [u ''/proj'', u ''libfoo'' @ u ''_test'' @ u ''.dart''] = u ''/proj/libfoo_test.dart''"
  "u ''./'' @ u ''libfoo'' @ u ''.dart'' = u ''./libfoo.dart''"
  by code_simp+

lemma libfoo_relative:
  "posix_relative cwd (u ''/proj'') (u ''/proj/libfoo.dart'') = u ''libfoo.dart''"
  by (simp add: rel_eval norm_eval str_eval)

lemma not_under_lib_examples:
  "\<not> isUnderLibDirectory (posix cwd) (u ''library/foo.dart'')"
  "\<not> isUnderLibDirectory (posix cwd) (u ''libfoo.dart'')"
  by (simp_all add: under_lib_posix u_def)

text \<open>
  C9: the library branch is taken exactly when the path of the source relative to the
  workspace root is \<open>lib\<close> followed by a separator (the separator of the host or a
  forward slash) and anything; on a POSIX host, exactly when it starts with \<open>lib/\<close>.
  \<open>library/foo.dart\<close> and \<open>libfoo.dart\<close> are not under the library directory, and
  their test files are derived by the non-library branch.
\<close>
theorem lib_branch_exact:
  "(sep P = [c] \<longrightarrow>
      (isUnderLibDirectory P rel \<longleftrightarrow>
         (\<exists>x rest. rel = u ''lib'' @ x # rest \<and> (x = c \<or> x = SLASH))))
   \<and> (isUnderLibDirectory (posix cwd) rel \<longleftrightarrow> prefix (u ''lib/'') rel)
   \<and> handleCreateTestCommand_testFileInfo P root src pkg =
       (if isUnderLibDirectory P (relative P root src)
        then calculateTestFileInfoForLib P root src (relative P root src)
               (basename P src (extname P src)) (extname P src) pkg
        else calculateTestFileInfoForNonLib P src (basename P src (extname P src))
               (extname P src))
   \<and> \<not> isUnderLibDirectory (posix cwd) (u ''library/foo.dart'')
   \<and> \<not> isUnderLibDirectory (posix cwd) (u ''libfoo.dart'')
   \<and> handleCreateTestCommand_testFileInfo (posix cwd) (u ''/proj'')
        (u ''/proj/library/foo.dart'') pkg =
        \<lparr>testPath = u ''/proj/library/foo_test.dart'', importPath = u ''./foo.dart''\<rparr>
   \<and> handleCreateTestCommand_testFileInfo (posix cwd) (u ''/proj'')
        (u ''/proj/libfoo.dart'') pkg =
        \<lparr>testPath = u ''/proj/libfoo_test.dart'', importPath = u ''./libfoo.dart''\<rparr>"
proof -
  have a: "sep P = [c] \<longrightarrow>
      (isUnderLibDirectory P rel \<longleftrightarrow>
         (\<exists>x rest. rel = u ''lib'' @ x # rest \<and> (x = c \<or> x = SLASH)))"
    using under_lib_iff by blast
  have e1: "handleCreateTestCommand_testFileInfo (posix cwd) (u ''/proj'')
        (u ''/proj/library/foo.dart'') pkg =
        \<lparr>testPath = u ''/proj/library/foo_test.dart'', importPath = u ''./foo.dart''\<rparr>"
    unfolding handle_branch posix_sel library_foo library_foo_relative
    using not_under_lib_examples(1) [of cwd]
    by (simp add: nonlib_value posix_sel library_foo)
  have e2: "handleCreateTestCommand_testFileInfo (posix cwd) (u ''/proj'')
        (u ''/proj/libfoo.dart'') pkg =
        \<lparr>testPath = u ''/proj/libfoo_test.dart'', importPath = u ''./libfoo.dart''\<rparr>"
    unfolding handle_branch posix_sel libfoo libfoo_relative
    using not_under_lib_examples(2) [of cwd]
    by (simp add: nonlib_value posix_sel libfoo)
  show ?thesis
    using a under_lib_posix [of cwd rel] handle_branch [of P root src pkg]
      not_under_lib_examples [of cwd] e1 e2
    by blast
qed

theorem lib_branch_exact_witness:
  "sep (posix (u ''/home/dev'')) = [SLASH]
   \<and> isUnderLibDirectory (posix (u ''/home/dev'')) (u ''lib/models/user.dart'')
   \<and> \<not> isUnderLibDirectory (posix (u ''/home/dev'')) (u ''library/foo.dart'')"
proof -
  have s: "sep (posix (u ''/home/dev'')) = [SLASH]" by (simp add: posix_sel)
  have "u ''lib/models/user.dart'' = u ''lib'' @ SLASH # u ''models/user.dart''"
    by (simp add: u_def SLASH_def)
  then have "\<exists>x rest. u ''lib/models/user.dart'' = u ''lib'' @ x # rest \<and> (x = SLASH \<or> x = SLASH)"
    by blast
  with s lib_branch_exact [of "posix (u ''/home/dev'')" SLASH "u ''lib/models/user.dart''"
      "u ''/home/dev''"]
  show ?thesis by blast
qed

section \<open>Properties of the orchestrator\<close>

lemma getPackageName_events:
  "snd (getPackageName H P fs root) = [ReadFile (join P [root, u ''pubspec.yaml''])]"
  by (simp add: getPackageName_def Let_def split: option.splits)

lemma openExistingTestFile_events:
  "\<exists>rest. snd (openExistingTestFile H P fs tp) = OpenTextDocument tp # rest
      \<and> (\<forall>e\<in>set rest. \<not> is_creation_event e)"
  by (simp add: openExistingTestFile_def split: option.splits)

lemma report_failure_no_creation: "\<forall>e\<in>set (report_failure err). \<not> is_creation_event e"
  by (simp add: report_failure_def)

lemma handle_existing:
  assumes "uri_parse_fsPath H (uri args) = Inr sourcePath"
    and "getWorkspaceFolder H (uri args) = Some root"
    and "fs_stat H fs (testPath (handleCreateTestCommand_testFileInfo P root sourcePath
            (fst (getPackageName H P fs root))))"
  shows "handleCreateTestCommand H P args fs =
     (fs, [ReadFile (join P [root, u ''pubspec.yaml'']),
           Stat (testPath (handleCreateTestCommand_testFileInfo P root sourcePath
                   (fst (getPackageName H P fs root))))]
          @ snd (openExistingTestFile H P fs
                   (testPath (handleCreateTestCommand_testFileInfo P root sourcePath
                      (fst (getPackageName H P fs root)))))
          @ (case fst (openExistingTestFile H P fs
                         (testPath (handleCreateTestCommand_testFileInfo P root sourcePath
                            (fst (getPackageName H P fs root))))) of
               None \<Rightarrow> []
             | Some err \<Rightarrow> report_failure err))"
proof -
  obtain pkg ev1 where g: "getPackageName H P fs root = (pkg, ev1)"
    by (cases "getPackageName H P fs root")
  have ev1: "ev1 = [ReadFile (join P [root, u ''pubspec.yaml''])]"
    using getPackageName_events [of H P fs root] g by simp
  let ?tp = "testPath (handleCreateTestCommand_testFileInfo P root sourcePath pkg)"
  obtain r ev3 where o: "openExistingTestFile H P fs ?tp = (r, ev3)"
    by (cases "openExistingTestFile H P fs ?tp")
  from assms(3) g have st: "fs_stat H fs ?tp" by simp
  show ?thesis
    by (cases r)
       (simp_all add: handleCreateTestCommand_def Let_def assms(1) assms(2) g fileExists_def st o ev1)
qed


text \<open>
  The guarded case.  When the URI parses, the source lies in a workspace folder and
  \<open>stat\<close> succeeds on the derived test path, \<open>handleCreateTestCommand\<close> leaves the
  file system as it found it, so every file reads back the bytes it held before.  Its calls
  are the read of the manifest, the \<open>stat\<close> and the opening of the existing file,
  followed only by showing it and by messages: no directory is created and nothing is
  written, and the generated content, which only a write would carry, appears nowhere in
  the trace.
\<close>
theorem existing_test_never_overwritten:
  assumes "uri_parse_fsPath H (uri args) = Inr sourcePath"
    and "getWorkspaceFolder H (uri args) = Some root"
    and "fs_stat H fs (testPath (handleCreateTestCommand_testFileInfo P root sourcePath
            (fst (getPackageName H P fs root))))"
  shows "fst (handleCreateTestCommand H P args fs) = fs
    \<and> (\<forall>p. fs_readFile H (fst (handleCreateTestCommand H P args fs)) p = fs_readFile H fs p)
    \<and> (\<exists>rest. snd (handleCreateTestCommand H P args fs) =
          [ReadFile (join P [root, u ''pubspec.yaml'']),
           Stat (testPath (handleCreateTestCommand_testFileInfo P root sourcePath
                   (fst (getPackageName H P fs root)))),
           OpenTextDocument (testPath (handleCreateTestCommand_testFileInfo P root sourcePath
                   (fst (getPackageName H P fs root))))] @ rest)
    \<and> (\<forall>e\<in>set (snd (handleCreateTestCommand H P args fs)). \<not> is_creation_event e)"
proof -
  let ?tp = "testPath (handleCreateTestCommand_testFileInfo P root sourcePath
                   (fst (getPackageName H P fs root)))"
  let ?tail = "case fst (openExistingTestFile H P fs ?tp) of
               None \<Rightarrow> []
             | Some err \<Rightarrow> report_failure err"
  have run: "handleCreateTestCommand H P args fs =
     (fs, [ReadFile (join P [root, u ''pubspec.yaml'']), Stat ?tp]
          @ snd (openExistingTestFile H P fs ?tp) @ ?tail)"
    using assms by (rule handle_existing)
  obtain rest where rest: "snd (openExistingTestFile H P fs ?tp) = OpenTextDocument ?tp # rest"
    and quiet: "\<forall>e\<in>set rest. \<not> is_creation_event e"
    using openExistingTestFile_events [of H P fs ?tp] by blast
  have tail: "\<forall>e\<in>set ?tail. \<not> is_creation_event e"
    using report_failure_no_creation by (cases "fst (openExistingTestFile H P fs ?tp)") auto
  have state: "fst (handleCreateTestCommand H P args fs) = fs"
    unfolding run by simp
  have trace: "snd (handleCreateTestCommand H P args fs) =
      [ReadFile (join P [root, u ''pubspec.yaml'']), Stat ?tp, OpenTextDocument ?tp]
        @ (rest @ ?tail)"
    unfolding run rest by simp
  have none: "\<forall>e\<in>set (snd (handleCreateTestCommand H P args fs)). \<not> is_creation_event e"
    unfolding trace using quiet tail by auto
  from state trace none show ?thesis by (metis (no_types))
qed

lemma mem_host_sel:
  "uri_parse_fsPath (mem_host root) =
     (\<lambda>s. if prefix (u ''file://'') s then Inr (drop 7 s) else Inl (u ''UriError''))"
  "getWorkspaceFolder (mem_host root) =
     (\<lambda>s. if prefix (u ''file://'' @ root @ u ''/'') s then Some root else None)"
  "fs_stat (mem_host root) = (\<lambda>fs p. map_of fs p \<noteq> None)"
  "fs_readFile (mem_host root) = (\<lambda>fs p. map_of fs p)"
  by (simp_all add: mem_host_def)

theorem existing_test_never_overwritten_witness:
  "fst (handleCreateTestCommand (mem_host (u ''/proj'')) (posix (u ''/''))
          \<lparr>uri = u ''file:///proj/lib/models/user.dart'', className = u ''User''\<rparr>
          [(u ''/proj/test/models/user_test.dart'', ascii ''// my tests'')])
     = [(u ''/proj/test/models/user_test.dart'', ascii ''// my tests'')]"
proof -
  let ?H = "mem_host (u ''/proj'')" and ?P = "posix (u ''/'')"
  let ?args = "\<lparr>uri = u ''file:///proj/lib/models/user.dart'', className = u ''User''\<rparr>"
  let ?fs = "[(u ''/proj/test/models/user_test.dart'', ascii ''// my tests'')]"
  have a: "uri_parse_fsPath ?H (uri ?args) = Inr (u ''/proj/lib/models/user.dart'')"
    by (simp add: mem_host_sel u_def)
  have b: "getWorkspaceFolder ?H (uri ?args) = Some (u ''/proj'')"
    by (simp add: mem_host_sel u_def)
  have pj: "posix_join [u ''/proj'', u ''pubspec.yaml''] = u ''/proj/pubspec.yaml''"
    by (simp add: norm_eval str_eval)
  have g: "fst (getPackageName ?H ?P ?fs (u ''/proj'')) = None"
    by (simp add: getPackageName_def Let_def posix_sel pj mem_host_sel) (simp add: u_def)
  have c: "fs_stat ?H ?fs (testPath (handleCreateTestCommand_testFileInfo ?P (u ''/proj'')
            (u ''/proj/lib/models/user.dart'') (fst (getPackageName ?H ?P ?fs (u ''/proj'')))))"
    unfolding g handle_user_dart user_dart_testPath by (simp add: mem_host_sel)
  from existing_test_never_overwritten [OF a b c] show ?thesis by blast
qed

text \<open>
  C1: an existing test file is overwritten when \<open>stat\<close> rejects.  \<open>fileExists\<close>
  answers \<open>false\<close> to every rejection of \<open>stat\<close>, not only to a missing file.  On
  the host whose \<open>stat\<close> rejects, with \<open>/proj/test/models/user_test.dart\<close> present
  and holding \<open>// my tests\<close>, the command for class \<open>User\<close> of
  \<open>/proj/lib/models/user.dart\<close> creates the directory, writes the generated template
  over the file and opens it: the file no longer reads back the bytes it held before.
\<close>
theorem existing_test_overwritten_when_stat_rejects:
  "fs_readFile (stat_rejecting_host (u ''/proj''))
      [(u ''/proj/test/models/user_test.dart'', ascii ''// my tests'')]
      (u ''/proj/test/models/user_test.dart'') = Some (ascii ''// my tests'')
   \<and> \<not> fs_stat (stat_rejecting_host (u ''/proj''))
      [(u ''/proj/test/models/user_test.dart'', ascii ''// my tests'')]
      (u ''/proj/test/models/user_test.dart'')
   \<and> snd (handleCreateTestCommand (stat_rejecting_host (u ''/proj'')) (posix (u ''/''))
          \<lparr>uri = u ''file:///proj/lib/models/user.dart'', className = u ''User''\<rparr>
          [(u ''/proj/test/models/user_test.dart'', ascii ''// my tests'')])
      = [ReadFile (u ''/proj/pubspec.yaml''),
         Stat (u ''/proj/test/models/user_test.dart''),
         CreateDirectory (u ''/proj/test/models''),
         WriteFile (u ''/proj/test/models/user_test.dart'')
           (utf8_encode (stat_rejecting_host (u ''/proj''))
              (generateTestContent (u ''User'') (u ''../../lib/models/user.dart''))),
         OpenTextDocument (u ''/proj/test/models/user_test.dart''),
         ShowTextDocument (u ''/proj/test/models/user_test.dart''),
         ShowInformationMessage (u ''Created test: test/models/user_test.dart'')]
   \<and> fs_readFile (stat_rejecting_host (u ''/proj''))
        (fst (handleCreateTestCommand (stat_rejecting_host (u ''/proj'')) (posix (u ''/''))
          \<lparr>uri = u ''file:///proj/lib/models/user.dart'', className = u ''User''\<rparr>
          [(u ''/proj/test/models/user_test.dart'', ascii ''// my tests'')]))
        (u ''/proj/test/models/user_test.dart'')
      = Some (utf8_encode (stat_rejecting_host (u ''/proj''))
              (generateTestContent (u ''User'') (u ''../../lib/models/user.dart'')))
   \<and> fs_readFile (stat_rejecting_host (u ''/proj''))
        (fst (handleCreateTestCommand (stat_rejecting_host (u ''/proj'')) (posix (u ''/''))
          \<lparr>uri = u ''file:///proj/lib/models/user.dart'', className = u ''User''\<rparr>
          [(u ''/proj/test/models/user_test.dart'', ascii ''// my tests'')]))
        (u ''/proj/test/models/user_test.dart'')
      \<noteq> fs_readFile (stat_rejecting_host (u ''/proj''))
          [(u ''/proj/test/models/user_test.dart'', ascii ''// my tests'')]
          (u ''/proj/test/models/user_test.dart'')"
  by code_simp

section \<open>Properties of the matcher and of package-name resolution\<close>

subsection \<open>The calculus of continuations\<close>

declare exec_from.simps [simp del]
declare rmatch.simps(5) [simp del]

lemma concat_map_concat: "concat (map k (concat xss)) = concat (map (\<lambda>xs. concat (map k xs)) xss)"
  by (induction xss) auto

lemma run_Seq: "run (Seq a b) k s = run a (run b k) s"
  unfolding run_def by (simp add: concat_map_concat comp_def)

lemma run_Alt: "run (Alt a b) k s = run a k s @ run b k s"
  by (simp add: run_def)

lemma run_Lit: "run (Lit l) k s = (if prefix l s then k (drop (length l) s) else [])"
  by (simp add: run_def)

lemma run_Lit_Nil: "run (Lit []) k s = k s"
  by (simp add: run_def)

lemma run_Cls_Nil: "run (Cls f) k [] = []"
  by (simp add: run_def)

lemma run_Cls_Cons: "run (Cls f) k (c # cs) = (if f c then k cs else [])"
  by (simp add: run_def)

lemma run_Star:
  "run (Star a) k s =
     run a (\<lambda>s'. if length s' < length s then run (Star a) k s' else []) s @ k s"
proof -
  have unf: "rmatch (Star a) s =
      concat (map (\<lambda>s'. if length s' < length s then rmatch (Star a) s' else []) (rmatch a s))
        @ [s]"
    by (rule rmatch.simps(5))
  have inner: "\<And>s'. concat (map k (if length s' < length s then rmatch (Star a) s' else []))
      = (if length s' < length s then concat (map k (rmatch (Star a) s')) else [])"
    by (simp del: rmatch.simps)
  have "concat (map k (rmatch (Star a) s)) =
      concat (map (\<lambda>s'. concat (map k (if length s' < length s then rmatch (Star a) s' else [])))
        (rmatch a s)) @ k s"
    by (subst unf) (simp add: concat_map_concat comp_def del: rmatch.simps)
  then show ?thesis
    unfolding run_def inner .
qed

lemma run_Star_Cls_Nil: "run (Star (Cls f)) k [] = k []"
  by (subst run_Star) (simp add: run_Cls_Nil)

lemma run_Star_Cls_Cons:
  "run (Star (Cls f)) k (c # cs) =
     (if f c then run (Star (Cls f)) k cs @ k (c # cs) else k (c # cs))"
  by (subst run_Star) (simp add: run_Cls_Cons)

lemma run_Eol:
  "run (Eol m) k s = (if s = [] \<or> (m \<and> is_line_terminator (hd s)) then k s else [])"
  by (cases s) (auto simp: run_def)

text \<open>Greedy repetition of a class: the longest run comes first.\<close>

lemma star_cls_first: "\<exists>t. run (Star (Cls f)) k s = k (dropWhile f s) @ t"
proof (induction s)
  case Nil
  show ?case by (simp add: run_Star_Cls_Nil)
next
  case (Cons c cs)
  then obtain t where "run (Star (Cls f)) k cs = k (dropWhile f cs) @ t" ..
  then show ?case by (simp add: run_Star_Cls_Cons)
qed

text \<open>
  When what follows cannot start with a character of the class, only the longest run
  goes on: backtracking into shorter runs finds nothing.
\<close>

lemma star_cls_skip:
  assumes "\<And>c cs. f c \<Longrightarrow> k (c # cs) = []"
  shows "run (Star (Cls f)) k s = k (dropWhile f s)"
proof (induction s)
  case Nil
  show ?case by (simp add: run_Star_Cls_Nil)
next
  case (Cons c cs)
  then show ?case using assms by (simp add: run_Star_Cls_Cons)
qed

lemma plus_cls_skip:
  assumes "\<And>c cs. f c \<Longrightarrow> k (c # cs) = []"
  shows "run (Plus (Cls f)) k s = (if s \<noteq> [] \<and> f (hd s) then k (dropWhile f s) else [])"
proof (cases s)
  case Nil
  then show ?thesis by (simp add: Plus_def run_Seq run_Cls_Nil)
next
  case (Cons c cs)
  then show ?thesis
    using star_cls_skip [of f k cs, OF assms]
    by (simp add: Plus_def run_Seq run_Cls_Cons)
qed

lemma dropWhile_all_append:
  "list_all f w \<Longrightarrow> list_all (\<lambda>c. \<not> f c) (take 1 x) \<Longrightarrow> dropWhile f (w @ x) = x"
proof (induction w)
  case Nil
  then show ?case by (cases x) simp_all
next
  case (Cons c w)
  then show ?case by simp
qed

subsection \<open>Characters\<close>

lemmas char_defs = is_space_def is_line_terminator_def is_upper_def is_lower_def is_digit_def
  UNDERSCORE_def ident_start_def ident_char_def name_start_def name_char_def

lemma space_cases:
  "is_space c \<Longrightarrow> unat c \<le> 0x20 \<or> 0xA0 \<le> unat c"
  by (auto simp: char_defs word_le_nat_alt)

lemma ident_char_range: "ident_char c \<Longrightarrow> 0x30 \<le> unat c \<and> unat c \<le> 0x7A"
  by (auto simp: char_defs word_le_nat_alt)

lemma space_not_ident_char: "is_space c \<Longrightarrow> \<not> ident_char c"
  using space_cases [of c] ident_char_range [of c] by auto

lemma ident_start_char: "ident_start c \<Longrightarrow> ident_char c"
  by (auto simp: char_defs)

lemma space_not_ident_start: "is_space c \<Longrightarrow> \<not> ident_start c"
  using space_not_ident_char ident_start_char by blast

lemma name_char_ident_char: "name_char c \<Longrightarrow> ident_char c"
  by (auto simp: char_defs)

lemma space_not_name_char: "is_space c \<Longrightarrow> \<not> name_char c"
  using space_not_ident_char name_char_ident_char by blast

lemma name_start_char: "name_start c \<Longrightarrow> name_char c"
  by (auto simp: char_defs)

lemma line_terminator_space: "is_line_terminator c \<Longrightarrow> is_space c"
  by (simp add: is_space_def)

lemma digit_not_ident_start: "is_digit c \<Longrightarrow> \<not> ident_start c"
  by (auto simp: char_defs word_le_nat_alt)

subsection \<open>Modifiers\<close>

lemma keyword_cases:
  "kw \<in> set modifier_keywords \<Longrightarrow>
     kw = u ''abstract'' \<or> kw = u ''base'' \<or> kw = u ''interface'' \<or> kw = u ''final''
     \<or> kw = u ''sealed'' \<or> kw = u ''mixin''"
  by (simp add: modifier_keywords_def)

lemma keyword_hd: "kw \<in> set modifier_keywords \<Longrightarrow> kw \<noteq> [] \<and> keyword_initial (hd kw)"
  by (auto dest!: keyword_cases simp: u_def keyword_initial_def)

lemma keyword_initial_not_space: "keyword_initial c \<Longrightarrow> \<not> is_space c"
  by (auto simp: keyword_initial_def char_defs)

lemma run_modifier_keyword:
  assumes "kw \<in> set modifier_keywords"
  shows "run modifier k (kw @ r) = k r"
proof -
  have "run modifier k (u ''abstract'' @ r) = k r" "run modifier k (u ''base'' @ r) = k r"
    "run modifier k (u ''interface'' @ r) = k r" "run modifier k (u ''final'' @ r) = k r"
    "run modifier k (u ''sealed'' @ r) = k r" "run modifier k (u ''mixin'' @ r) = k r"
    by (simp_all add: modifier_def run_Alt run_Lit u_def)
  with keyword_cases [OF assms] show ?thesis by blast
qed

lemma run_modifier_other:
  "s = [] \<or> \<not> keyword_initial (hd s) \<Longrightarrow> run modifier k s = []"
  by (cases s) (auto simp: modifier_def run_Alt run_Lit u_def keyword_initial_def)


lemma modifier_seq_hd: "modifier_seq m \<Longrightarrow> m = [] \<or> keyword_initial (hd m)"
  by (induction rule: modifier_seq.induct) (auto dest: keyword_hd)

lemma run_modifiers_space:
  assumes "\<And>c cs. is_space c \<Longrightarrow> k (c # cs) = []"
  shows "is_space c \<Longrightarrow> run (Star (Seq modifier (Plus (Cls is_space)))) k (c # cs) = []"
proof -
  assume sp: "is_space c"
  then have "\<not> keyword_initial c" using keyword_initial_not_space by blast
  then have "run modifier k' (c # cs) = []" for k' :: "jsstring \<Rightarrow> 'a list"
    by (intro run_modifier_other) simp
  then show ?thesis
    using assms [OF sp] by (subst run_Star) (simp add: run_Seq)
qed

lemma run_modifiers_forward:
  assumes kspace: "\<And>c cs. is_space c \<Longrightarrow> k (c # cs) = []"
    and kkw: "\<And>c cs. keyword_initial c \<Longrightarrow> k (c # cs) = []"
    and rest: "rest \<noteq> []" "\<not> is_space (hd rest)" "\<not> keyword_initial (hd rest)"
  shows "modifier_seq m \<Longrightarrow> run (Star (Seq modifier (Plus (Cls is_space)))) k (m @ rest) = k rest"
proof (induction rule: modifier_seq.induct)
  case ms_Nil
  have "run modifier k' rest = []" for k' :: "jsstring \<Rightarrow> 'a list"
    using rest by (intro run_modifier_other) simp
  then show ?case by (subst run_Star) (simp add: run_Seq)
next
  case (ms_Cons kw w m)
  let ?M = "Star (Seq modifier (Plus (Cls is_space)))"
  let ?s = "kw @ w @ m @ rest"
  let ?k' = "\<lambda>s'. if length s' < length ?s then run ?M k s' else []"
  from keyword_hd [OF ms_Cons.hyps(1)] obtain c cs where kw: "kw = c # cs" "keyword_initial c"
    by (cases kw) auto
  have ks: "k ?s = []" using kkw [OF kw(2)] kw(1) by simp
  have vanish: "\<And>c cs. is_space c \<Longrightarrow> ?k' (c # cs) = []"
    using run_modifiers_space [of k, OF kspace] by simp
  have nsp: "list_all (\<lambda>c. \<not> is_space c) (take 1 (m @ rest))"
  proof (cases m)
    case Nil
    with rest show ?thesis by (cases rest) simp_all
  next
    case (Cons a as)
    with modifier_seq_hd [OF ms_Cons.hyps(4)] have "keyword_initial a" by simp
    with Cons keyword_initial_not_space show ?thesis by simp
  qed
  have w: "w @ m @ rest \<noteq> []" "is_space (hd (w @ m @ rest))"
    using ms_Cons.hyps(2,3) by (cases w; simp)+
  have "run (Seq modifier (Plus (Cls is_space))) ?k' ?s = run (Plus (Cls is_space)) ?k' (w @ m @ rest)"
    unfolding run_Seq using run_modifier_keyword [OF ms_Cons.hyps(1)] by simp
  also have "\<dots> = ?k' (dropWhile is_space (w @ m @ rest))"
    using plus_cls_skip [of is_space ?k' "w @ m @ rest", OF vanish] w by simp
  also have "dropWhile is_space (w @ m @ rest) = m @ rest"
    using dropWhile_all_append [OF ms_Cons.hyps(3) nsp] by simp
  also have "?k' (m @ rest) = run ?M k (m @ rest)"
    using kw(1) by simp
  also have "\<dots> = k rest" by (rule ms_Cons.IH)
  finally have "run (Seq modifier (Plus (Cls is_space))) ?k' ?s = k rest" .
  then have "run ?M k ?s = k rest"
    using ks by (subst run_Star) simp
  then show ?case by simp
qed

lemma rmatch_group_run:
  "rmatch_group pre grp post s =
     run pre (\<lambda>a. run grp (\<lambda>b. run post (\<lambda>c. [(captured s c, captured a b)]) b) a) s"
  by (simp add: rmatch_group_def run_def comp_def del: rmatch.simps)

subsection \<open>The class regular expression, computed\<close>

lemma run_Seq_fun: "run (Seq a b) k = run a (run b k)"
  by (rule ext) (rule run_Seq)

lemma run_ident_Nil: "run dart_grp k [] = []"
  by (simp add: run_Seq run_Cls_Nil)

lemma run_ident_other: "\<not> ident_start c \<Longrightarrow> run dart_grp k (c # cs) = []"
  by (simp add: run_Seq run_Cls_Cons)

lemma run_ident_first:
  "ident_start c \<Longrightarrow> \<exists>t. run dart_grp k (c # cs) = k (dropWhile ident_char cs) @ t"
  using star_cls_first [of ident_char k cs] by (simp add: run_Seq run_Cls_Cons)

lemma class_initial: "\<not> is_space (0x63 :: jschar)" "\<not> keyword_initial (0x63 :: jschar)"
  by (simp_all add: char_defs keyword_initial_def)

lemma run_dart_pre:
  assumes K: "\<And>c cs. is_space c \<Longrightarrow> K (c # cs) = []"
    and ws: "list_all is_space ws" and mods: "modifier_seq mods"
    and ws1: "ws1 \<noteq> []" "list_all is_space ws1"
    and x: "list_all (\<lambda>c. \<not> is_space c) (take 1 x)"
  shows "run dart_pre K (ws @ mods @ u ''class'' @ ws1 @ x) = K x"
proof -
  let ?k1 = "run (Plus (Cls is_space)) K"
  let ?k2 = "run (Lit (u ''class'')) ?k1"
  let ?k3 = "run (Star (Seq modifier (Plus (Cls is_space)))) ?k2"
  let ?rest = "u ''class'' @ ws1 @ x"
  have cls: "u ''class'' = 0x63 # u ''lass''" by (simp add: u_def)
  have k2_other: "c \<noteq> 0x63 \<Longrightarrow> ?k2 (c # cs) = []" for c cs
    by (simp add: run_Lit cls)
  have k2_space: "\<And>c cs. is_space c \<Longrightarrow> ?k2 (c # cs) = []"
    using k2_other class_initial(1) by metis
  have k2_kw: "\<And>c cs. keyword_initial c \<Longrightarrow> ?k2 (c # cs) = []"
    using k2_other class_initial(2) by metis
  have k3_space: "\<And>c cs. is_space c \<Longrightarrow> ?k3 (c # cs) = []"
    by (rule run_modifiers_space [of ?k2, OF k2_space])
  have rest: "?rest \<noteq> []" "\<not> is_space (hd ?rest)" "\<not> keyword_initial (hd ?rest)"
    using class_initial by (simp_all add: cls)
  have nsp: "list_all (\<lambda>c. \<not> is_space c) (take 1 (mods @ ?rest))"
  proof (cases mods)
    case Nil
    with rest show ?thesis by (simp add: cls)
  next
    case (Cons a as)
    with modifier_seq_hd [OF mods] have "keyword_initial a" by simp
    with Cons keyword_initial_not_space show ?thesis by simp
  qed
  have w1: "ws1 @ x \<noteq> []" "is_space (hd (ws1 @ x))"
    using ws1 by (cases ws1; simp)+
  have "run dart_pre K (ws @ mods @ ?rest) = run (Star (Cls is_space)) ?k3 (ws @ mods @ ?rest)"
    by (simp only: run_Seq_fun)
  also have "\<dots> = ?k3 (dropWhile is_space (ws @ mods @ ?rest))"
    by (rule star_cls_skip [of is_space ?k3, OF k3_space])
  also have "dropWhile is_space (ws @ mods @ ?rest) = mods @ ?rest"
    by (rule dropWhile_all_append [OF ws nsp])
  also have "?k3 (mods @ ?rest) = ?k2 ?rest"
    by (rule run_modifiers_forward [of ?k2, OF k2_space k2_kw rest mods])
  also have "\<dots> = ?k1 (ws1 @ x)"
    by (simp add: run_Lit)
  also have "\<dots> = K (dropWhile is_space (ws1 @ x))"
    using plus_cls_skip [of is_space K "ws1 @ x", OF K] w1 by simp
  also have "dropWhile is_space (ws1 @ x) = x"
    by (rule dropWhile_all_append [OF ws1(2) x])
  finally show ?thesis .
qed

lemma dart_group_run:
  assumes ws: "list_all is_space ws" and mods: "modifier_seq mods"
    and ws1: "ws1 \<noteq> []" "list_all is_space ws1"
    and x: "list_all (\<lambda>c. \<not> is_space c) (take 1 x)"
    and line: "line = ws @ mods @ u ''class'' @ ws1 @ x"
  shows "rmatch_group dart_pre dart_grp (Lit []) line =
     run dart_grp (\<lambda>b. [(captured line b, captured x b)]) x"
proof -
  let ?K = "\<lambda>a. run dart_grp (\<lambda>b. [(captured line b, captured a b)]) a"
  have K: "\<And>c cs. is_space c \<Longrightarrow> ?K (c # cs) = []"
    using space_not_ident_start run_ident_other by blast
  have "rmatch_group dart_pre dart_grp (Lit []) line = run dart_pre ?K line"
    unfolding rmatch_group_run run_Lit_Nil ..
  also have "\<dots> = ?K x"
    using run_dart_pre [of ?K, OF K ws mods ws1 x] by (simp only: line)
  finally show ?thesis .
qed

subsection \<open>The search\<close>

lemma exec_from_InputStart_later:
  "exec_from InputStart pre grp post (Some c) s = None"
proof (induction s arbitrary: c)
  case Nil
  show ?case by (subst exec_from.simps) simp
next
  case (Cons x xs)
  show ?case by (subst exec_from.simps) (simp add: Cons)
qed

lemma regex_match_InputStart:
  "regex_match InputStart pre grp post s =
     (case rmatch_group pre grp post s of [] \<Rightarrow> None | m # _ \<Rightarrow> Some m)"
  unfolding regex_match_def
  by (subst exec_from.simps)
     (simp add: exec_from_InputStart_later split: list.splits)

subsection \<open>What a match consumed\<close>

lemma rmatch_sound: "r' \<in> set (rmatch r s) \<Longrightarrow> \<exists>p. s = p @ r' \<and> matches r p r'"
proof (induction r s arbitrary: r' rule: rmatch.induct)
  case (1 l s)
  then have "prefix l s" "r' = drop (length l) s" by (auto split: if_splits)
  then have "s = l @ r'" by (auto simp: prefix_def)
  then show ?case using m_Lit by blast
next
  case (2 f s)
  then obtain c where "s = c # r'" "f c" by (auto split: list.splits if_splits)
  then show ?case using m_Cls [of f c r'] by auto
next
  case (3 a b s)
  from "3.prems" obtain x where x: "x \<in> set (rmatch a s)" and r': "r' \<in> set (rmatch b x)"
    by auto
  from "3.IH"(1) [OF x] obtain p1 where p1: "s = p1 @ x" "matches a p1 x" by blast
  from "3.IH"(2) [OF x r'] obtain p2 where p2: "x = p2 @ r'" "matches b p2 r'" by blast
  have "matches (Seq a b) (p1 @ p2) r'"
    using p1(2) p2 by (auto intro: m_Seq)
  then show ?case using p1(1) p2(1) by auto
next
  case (4 a b s)
  from "4.prems" consider "r' \<in> set (rmatch a s)" | "r' \<in> set (rmatch b s)" by auto
  then show ?case
  proof cases
    case 1
    from "4.IH"(1) [OF 1] obtain p where "s = p @ r'" "matches a p r'" by blast
    then show ?thesis using m_AltL by blast
  next
    case 2
    from "4.IH"(2) [OF 2] obtain p where "s = p @ r'" "matches b p r'" by blast
    then show ?thesis using m_AltR by blast
  qed
next
  case (5 a s)
  have unf: "rmatch (Star a) s =
      concat (map (\<lambda>s'. if length s' < length s then rmatch (Star a) s' else []) (rmatch a s))
        @ [s]"
    by (rule rmatch.simps(5))
  from "5.prems" consider (here) "r' = s"
    | (step) x where "x \<in> set (rmatch a s)" "length x < length s" "r' \<in> set (rmatch (Star a) x)"
    unfolding unf by (auto split: if_splits simp del: rmatch.simps)
  then show ?case
  proof cases
    case here
    then show ?thesis using m_Star0 [of a s] by auto
  next
    case step
    from "5.IH"(1) [OF step(1)] obtain p1 where p1: "s = p1 @ x" "matches a p1 x" by blast
    from "5.IH"(2) [OF step(1,2,3)] obtain p2 where p2: "x = p2 @ r'" "matches (Star a) p2 r'"
      by blast
    have "matches (Star a) (p1 @ p2) r'"
      using p1(2) p2 by (auto intro: m_Star)
    then show ?thesis using p1(1) p2(1) by auto
  qed
next
  case (6 m s)
  then have "r' = s" "s = [] \<or> (m \<and> is_line_terminator (hd s))"
    by (auto split: list.splits if_splits)
  then show ?case using m_Eol [of s m] by auto
qed

inductive_cases matches_SeqE: "matches (Seq a b) p rest"
inductive_cases matches_AltE: "matches (Alt a b) p rest"
inductive_cases matches_LitE: "matches (Lit l) p rest"
inductive_cases matches_ClsE: "matches (Cls f) p rest"
inductive_cases matches_EolE: "matches (Eol m) p rest"

lemma matches_star_cls: "matches r p rest \<Longrightarrow> r = Star (Cls f) \<Longrightarrow> list_all f p"
  by (induction rule: matches.induct) (auto elim: matches_ClsE)

lemma matches_plus_cls: "matches (Plus (Cls f)) p rest \<Longrightarrow> p \<noteq> [] \<and> list_all f p"
  unfolding Plus_def
  by (erule matches_SeqE) (auto elim!: matches_ClsE dest: matches_star_cls)

lemma matches_modifier: "matches modifier p rest \<Longrightarrow> p \<in> set modifier_keywords"
  unfolding modifier_def modifier_keywords_def
  by (auto elim!: matches_AltE matches_LitE)

lemma matches_modifiers:
  "matches r p rest \<Longrightarrow> r = Star (Seq modifier (Plus (Cls is_space))) \<Longrightarrow> modifier_seq p"
proof (induction rule: matches.induct)
  case (m_Star0 a rest)
  show ?case by (rule ms_Nil)
next
  case (m_Star a p1 p2 rest)
  then have a: "matches (Seq modifier (Plus (Cls is_space))) p1 (p2 @ rest)" by simp
  then obtain kw w where "p1 = kw @ w" "matches modifier kw (w @ p2 @ rest)"
    "matches (Plus (Cls is_space)) w (p2 @ rest)"
    by (auto elim: matches_SeqE)
  then have "p1 = kw @ w" "kw \<in> set modifier_keywords" "w \<noteq> []" "list_all is_space w"
    using matches_modifier matches_plus_cls by blast+
  moreover have "modifier_seq p2" using m_Star by simp
  ultimately show ?case using ms_Cons [of kw w p2] by simp
qed simp_all

lemma dart_pre_sound:
  assumes "a \<in> set (rmatch dart_pre s)"
  shows "\<exists>ws mods ws1. s = ws @ mods @ u ''class'' @ ws1 @ a \<and> list_all is_space ws
      \<and> modifier_seq mods \<and> ws1 \<noteq> [] \<and> list_all is_space ws1"
proof -
  from rmatch_sound [OF assms] obtain p where p: "s = p @ a" "matches dart_pre p a" by blast
  from p(2) obtain ws q1 where 1: "p = ws @ q1" "matches (Star (Cls is_space)) ws (q1 @ a)"
    "matches (Seq (Star (Seq modifier (Plus (Cls is_space))))
       (Seq (Lit (u ''class'')) (Plus (Cls is_space)))) q1 a"
    by (auto elim: matches_SeqE)
  from 1(3) obtain mods q2 where 2: "q1 = mods @ q2"
    "matches (Star (Seq modifier (Plus (Cls is_space)))) mods (q2 @ a)"
    "matches (Seq (Lit (u ''class'')) (Plus (Cls is_space))) q2 a"
    by (auto elim: matches_SeqE)
  from 2(3) obtain ws1 where 3: "q2 = u ''class'' @ ws1" "matches (Plus (Cls is_space)) ws1 a"
    by (auto elim!: matches_SeqE matches_LitE)
  have "list_all is_space ws" using 1(2) matches_star_cls by blast
  moreover have "modifier_seq mods" using 2(2) matches_modifiers by blast
  moreover have "ws1 \<noteq> [] \<and> list_all is_space ws1" using 3(2) matches_plus_cls by blast
  moreover have "s = ws @ mods @ u ''class'' @ ws1 @ a" using p(1) 1(1) 2(1) 3(1) by simp
  ultimately show ?thesis by blast
qed

subsection \<open>The class regular expression and the shape of a line\<close>

lemma DART_CLASS_REGEX_eq:
  "DART_CLASS_REGEX line =
     (case rmatch_group dart_pre dart_grp (Lit []) line of [] \<Rightarrow> None | m # _ \<Rightarrow> Some m)"
  unfolding DART_CLASS_REGEX_def by (rule regex_match_InputStart)

lemma captured_append: "captured (a @ b) b = a"
  by (simp add: captured_def)

lemma dart_regex_complete:
  assumes "class_declaration_line line whole name"
  shows "DART_CLASS_REGEX line = Some (whole, name)"
proof -
  from assms obtain ws mods ws1 rest where d:
    "line = whole @ rest" "whole = ws @ mods @ u ''class'' @ ws1 @ name"
    "list_all is_space ws" "modifier_seq mods" "ws1 \<noteq> []" "list_all is_space ws1"
    "is_identifier name" "list_all (\<lambda>c. \<not> ident_char c) (take 1 rest)"
    unfolding class_declaration_line_def by blast
  from d(7) obtain c n where n: "name = c # n" "ident_start c" "list_all ident_char n"
    by (cases name) (auto simp: is_identifier_def)
  let ?x = "name @ rest"
  have x: "list_all (\<lambda>c. \<not> is_space c) (take 1 ?x)"
    using n space_not_ident_start by auto
  have line: "line = ws @ mods @ u ''class'' @ ws1 @ ?x"
    using d(1,2) by simp
  have "rmatch_group dart_pre dart_grp (Lit []) line =
      run dart_grp (\<lambda>b. [(captured line b, captured ?x b)]) ?x"
    by (rule dart_group_run [OF d(3,4,5,6) x line])
  moreover obtain t where "run dart_grp (\<lambda>b. [(captured line b, captured ?x b)]) (c # (n @ rest))
      = [(captured line (dropWhile ident_char (n @ rest)),
          captured ?x (dropWhile ident_char (n @ rest)))] @ t"
    using run_ident_first [OF n(2), of "\<lambda>b. [(captured line b, captured ?x b)]" "n @ rest"]
    by blast
  moreover have "dropWhile ident_char (n @ rest) = rest"
    by (rule dropWhile_all_append [OF n(3) d(8)])
  moreover have "captured line rest = whole" "captured ?x rest = name"
    using d(1) by (simp_all add: captured_append)
  ultimately have "\<exists>t. rmatch_group dart_pre dart_grp (Lit []) line = (whole, name) # t"
    using n(1) by simp
  then show ?thesis unfolding DART_CLASS_REGEX_eq by auto
qed

lemma take_1_dropWhile: "list_all (\<lambda>c. \<not> f c) (take 1 (dropWhile f cs))"
  by (induction cs) simp_all

lemma dart_regex_shape:
  assumes "DART_CLASS_REGEX line \<noteq> None"
  shows "\<exists>whole name. class_declaration_line line whole name"
proof -
  from assms have "rmatch_group dart_pre dart_grp (Lit []) line \<noteq> []"
    unfolding DART_CLASS_REGEX_eq by (auto split: list.splits)
  then obtain a where a: "a \<in> set (rmatch dart_pre line)"
    and g: "run dart_grp (\<lambda>b. [(captured line b, captured a b)]) a \<noteq> []"
    unfolding rmatch_group_run run_Lit_Nil by (auto simp: run_def [of dart_pre] simp del: rmatch.simps)
  have "a \<noteq> []" using g by (auto simp: run_ident_Nil)
  then obtain c cs where ac: "a = c # cs" by (cases a) auto
  have "ident_start c"
    using g run_ident_other [of c _ cs] unfolding ac by blast
  with ac have c: "a = c # cs" "ident_start c" by simp_all
  from dart_pre_sound [OF a] obtain ws mods ws1 where d:
    "line = ws @ mods @ u ''class'' @ ws1 @ a" "list_all is_space ws" "modifier_seq mods"
    "ws1 \<noteq> []" "list_all is_space ws1"
    by blast
  let ?name = "c # takeWhile ident_char cs" and ?rest = "dropWhile ident_char cs"
  have "a = ?name @ ?rest" using c(1) by simp
  then have "line = (ws @ mods @ u ''class'' @ ws1 @ ?name) @ ?rest"
    using d(1) by simp
  moreover have "is_identifier ?name"
    using c(2) by (simp add: is_identifier_def list_all_iff) (meson set_takeWhileD)
  moreover have "list_all (\<lambda>c. \<not> ident_char c) (take 1 ?rest)"
    by (rule take_1_dropWhile)
  ultimately have "class_declaration_line line (ws @ mods @ u ''class'' @ ws1 @ ?name) ?name"
    unfolding class_declaration_line_def using d(2-5) by blast
  then show ?thesis by blast
qed

lemma dart_regex_iff:
  "DART_CLASS_REGEX line = Some (whole, name) \<longleftrightarrow> class_declaration_line line whole name"
proof
  assume m: "DART_CLASS_REGEX line = Some (whole, name)"
  then obtain whole' name' where s: "class_declaration_line line whole' name'"
    using dart_regex_shape [of line] by auto
  from dart_regex_complete [OF s] m have "whole' = whole" "name' = name" by simp_all
  with s show "class_declaration_line line whole name" by simp
next
  assume "class_declaration_line line whole name"
  then show "DART_CLASS_REGEX line = Some (whole, name)" by (rule dart_regex_complete)
qed

lemma dart_regex_digit:
  assumes "list_all is_space ws" "modifier_seq mods" "ws1 \<noteq> []" "list_all is_space ws1"
    "is_digit d"
  shows "DART_CLASS_REGEX (ws @ mods @ u ''class'' @ ws1 @ d # rest) = None"
proof -
  have nsp: "\<not> is_space d"
    using assms(5) by (auto simp: char_defs word_le_nat_alt)
  then have x: "list_all (\<lambda>c. \<not> is_space c) (take 1 (d # rest))" by simp
  let ?line = "ws @ mods @ u ''class'' @ ws1 @ d # rest"
  have "rmatch_group dart_pre dart_grp (Lit []) ?line =
      run dart_grp (\<lambda>b. [(captured ?line b, captured (d # rest) b)]) (d # rest)"
    by (rule dart_group_run [OF assms(1-4) x refl])
  also have "\<dots> = []"
    using digit_not_ident_start [OF assms(5)] by (rule run_ident_other)
  finally show ?thesis unfolding DART_CLASS_REGEX_eq by simp
qed

lemma dart_regex_needs_class:
  assumes "\<not> sublist (u ''class'') line"
  shows "DART_CLASS_REGEX line = None"
proof (rule ccontr)
  assume "DART_CLASS_REGEX line \<noteq> None"
  from dart_regex_shape [OF this] obtain whole name where
    "class_declaration_line line whole name" by blast
  then obtain ws mods ws1 rest where
    "line = (ws @ mods) @ u ''class'' @ (ws1 @ name @ rest)"
    unfolding class_declaration_line_def by auto
  then have "sublist (u ''class'') line" unfolding sublist_def by blast
  with assms show False by simp
qed

lemma codeLenses_from_iff:
  "L \<in> set (codeLenses_from d i ls) \<longleftrightarrow>
     (\<exists>j whole name. j < length ls \<and> DART_CLASS_REGEX (ls ! j) = Some (whole, name)
        \<and> L = \<lparr>lens_line = i + j, lens_start = 0, lens_end = length whole,
                lens_title = u ''$(beaker) Create test file'',
                lens_tooltip = u ''Create test file for '' @ name,
                lens_command = COMMAND_ID,
                lens_arguments = \<lparr>uri = d, className = name\<rparr>\<rparr>)"
  (is "?lhs i ls \<longleftrightarrow> (\<exists>j whole name. ?P i ls j whole name)")
proof (induction ls arbitrary: i)
  case Nil
  show ?case by simp
next
  case (Cons l ls)
  have shift: "(\<exists>j whole name. ?P (Suc i) ls j whole name)
      \<longleftrightarrow> (\<exists>j whole name. j > 0 \<and> ?P i (l # ls) j whole name)"
  proof
    assume "\<exists>j whole name. ?P (Suc i) ls j whole name"
    then obtain j whole name where "?P (Suc i) ls j whole name" by blast
    then have "Suc j > 0 \<and> ?P i (l # ls) (Suc j) whole name" by simp
    then show "\<exists>j whole name. j > 0 \<and> ?P i (l # ls) j whole name" by blast
  next
    assume "\<exists>j whole name. j > 0 \<and> ?P i (l # ls) j whole name"
    then obtain j whole name where j: "j > 0" "?P i (l # ls) j whole name" by blast
    then obtain j' where "j = Suc j'" by (cases j) auto
    with j have "?P (Suc i) ls j' whole name" by simp
    then show "\<exists>j whole name. ?P (Suc i) ls j whole name" by blast
  qed
  have zero: "(\<exists>whole name. ?P i (l # ls) 0 whole name) \<longleftrightarrow>
      (\<exists>whole name. DART_CLASS_REGEX l = Some (whole, name)
        \<and> L = \<lparr>lens_line = i, lens_start = 0, lens_end = length whole,
                lens_title = u ''$(beaker) Create test file'',
                lens_tooltip = u ''Create test file for '' @ name,
                lens_command = COMMAND_ID,
                lens_arguments = \<lparr>uri = d, className = name\<rparr>\<rparr>)"
    by simp
  have split: "(\<exists>j whole name. ?P i (l # ls) j whole name) \<longleftrightarrow>
      (\<exists>whole name. ?P i (l # ls) 0 whole name)
      \<or> (\<exists>j whole name. j > 0 \<and> ?P i (l # ls) j whole name)"
    by (metis gr0I)
  show ?case
  proof (cases "DART_CLASS_REGEX l")
    case None
    then have "?lhs i (l # ls) \<longleftrightarrow> ?lhs (Suc i) ls" by simp
    also have "\<dots> \<longleftrightarrow> (\<exists>j whole name. ?P (Suc i) ls j whole name)" by (rule Cons.IH)
    finally show ?thesis unfolding split shift zero using None by simp
  next
    case (Some m)
    obtain whole name where m: "m = (whole, name)" by (cases m)
    have "?lhs i (l # ls) \<longleftrightarrow>
        L = \<lparr>lens_line = i, lens_start = 0, lens_end = length whole,
                lens_title = u ''$(beaker) Create test file'',
                lens_tooltip = u ''Create test file for '' @ name,
                lens_command = COMMAND_ID,
                lens_arguments = \<lparr>uri = d, className = name\<rparr>\<rparr>
        \<or> ?lhs (Suc i) ls"
      using Some m by auto
    also have "?lhs (Suc i) ls \<longleftrightarrow> (\<exists>j whole name. ?P (Suc i) ls j whole name)" by (rule Cons.IH)
    finally show ?thesis unfolding split shift zero using Some m by auto
  qed
qed


subsection \<open>The lines of a document and the order of the lenses\<close>

lemma CR_not_LF: "CR \<noteq> LF"
  by (simp add: CR_def LF_def)

lemma split_lines_nonempty: "split_lines s \<noteq> []"
  by (induction s) (auto split: list.splits)

lemma split_lines_Cons_plain:
  "c \<noteq> LF \<Longrightarrow> \<not> (c = CR \<and> cs \<noteq> [] \<and> hd cs = LF) \<Longrightarrow>
   split_lines (c # cs) = (c # hd (split_lines cs)) # tl (split_lines cs)"
  using split_lines_nonempty [of cs] by (cases "split_lines cs") auto

lemma split_lines_no_LF: "LF \<notin> set l \<Longrightarrow> split_lines l = [l]"
proof (induction l)
  case Nil
  show ?case by simp
next
  case (Cons c l)
  then have a: "c \<noteq> LF" "LF \<notin> set l" by auto
  have b: "\<not> (c = CR \<and> l \<noteq> [] \<and> hd l = LF)"
    using a(2) by (cases l) auto
  show ?case
    using Cons.IH [OF a(2)] by (simp only: split_lines_Cons_plain [OF a(1) b]) simp
qed

lemma split_lines_CRLF:
  "LF \<notin> set l \<Longrightarrow> split_lines (l @ CR # LF # rest) = l # split_lines rest"
proof (induction l)
  case Nil
  show ?case using CR_not_LF by simp
next
  case (Cons c l)
  then have a: "c \<noteq> LF" "LF \<notin> set l" by auto
  have "hd (l @ CR # LF # rest) \<noteq> LF"
    using a(2) CR_not_LF hd_in_set [of l] by (cases l) auto
  then have b: "\<not> (c = CR \<and> l @ CR # LF # rest \<noteq> [] \<and> hd (l @ CR # LF # rest) = LF)"
    by simp
  have "split_lines ((c # l) @ CR # LF # rest) = split_lines (c # (l @ CR # LF # rest))"
    by simp
  also have "\<dots> = (c # l) # split_lines rest"
    using Cons.IH [OF a(2)] by (simp only: split_lines_Cons_plain [OF a(1) b]) simp
  finally show ?case .
qed

lemma split_lines_LF:
  "LF \<notin> set l \<Longrightarrow> l = [] \<or> last l \<noteq> CR \<Longrightarrow>
   split_lines (l @ LF # rest) = l # split_lines rest"
proof (induction l)
  case Nil
  show ?case by simp
next
  case (Cons c l)
  then have a: "c \<noteq> LF" "LF \<notin> set l" by auto
  have last: "last (c # l) \<noteq> CR" using Cons.prems(2) by simp
  have b: "\<not> (c = CR \<and> l @ LF # rest \<noteq> [] \<and> hd (l @ LF # rest) = LF)"
  proof (cases l)
    case Nil
    with last show ?thesis by simp
  next
    case (Cons x xs)
    with a(2) show ?thesis by auto
  qed
  have l: "l = [] \<or> last l \<noteq> CR" using last by (cases l) auto
  have "split_lines ((c # l) @ LF # rest) = split_lines (c # (l @ LF # rest))"
    by simp
  also have "\<dots> = (c # l) # split_lines rest"
    using Cons.IH [OF a(2) l] by (simp only: split_lines_Cons_plain [OF a(1) b]) simp
  finally show ?case .
qed

lemma split_lines_join_LF:
  "ls \<noteq> [] \<Longrightarrow> \<forall>l\<in>set ls. LF \<notin> set l \<Longrightarrow> \<forall>l\<in>set (butlast ls). l = [] \<or> last l \<noteq> CR \<Longrightarrow>
   split_lines (join_str [LF] ls) = ls"
proof (induction "[LF]" ls rule: join_str.induct)
  case 1
  then show ?case by simp
next
  case (2 x)
  then show ?case by (simp add: split_lines_no_LF)
next
  case (3 x y ys)
  have "split_lines (x @ LF # join_str [LF] (y # ys)) = x # split_lines (join_str [LF] (y # ys))"
    using "3.prems" by (intro split_lines_LF) auto
  moreover have "split_lines (join_str [LF] (y # ys)) = y # ys"
    using "3.prems" by (intro "3.hyps") auto
  ultimately show ?case by simp
qed

lemma split_lines_join_CRLF:
  "ls \<noteq> [] \<Longrightarrow> \<forall>l\<in>set ls. LF \<notin> set l \<Longrightarrow> split_lines (join_str [CR, LF] ls) = ls"
proof (induction "[CR, LF]" ls rule: join_str.induct)
  case 1
  then show ?case by simp
next
  case (2 x)
  then show ?case by (simp add: split_lines_no_LF)
next
  case (3 x y ys)
  have "split_lines (x @ CR # LF # join_str [CR, LF] (y # ys))
      = x # split_lines (join_str [CR, LF] (y # ys))"
    using "3.prems" by (intro split_lines_CRLF) auto
  moreover have "split_lines (join_str [CR, LF] (y # ys)) = y # ys"
    using "3.prems" by (intro "3.hyps") auto
  ultimately show ?case by simp
qed

lemma filter_upt_Suc:
  "filter P [0..<Suc n] = (if P 0 then [0] else []) @ map Suc (filter (\<lambda>j. P (Suc j)) [0..<n])"
proof -
  have "[0..<Suc n] = 0 # map Suc [0..<n]"
    by (simp add: upt_conv_Cons map_Suc_upt del: upt_Suc)
  then show ?thesis by (simp add: filter_map comp_def del: upt_Suc)
qed

lemma lens_list:
  "list_all2
     (\<lambda>L j. \<exists>whole name. DART_CLASS_REGEX (ls ! j) = Some (whole, name)
        \<and> L = \<lparr>lens_line = i + j, lens_start = 0, lens_end = length whole,
                lens_title = u ''$(beaker) Create test file'',
                lens_tooltip = u ''Create test file for '' @ name,
                lens_command = COMMAND_ID,
                lens_arguments = \<lparr>uri = d, className = name\<rparr>\<rparr>)
     (codeLenses_from d i ls)
     (filter (\<lambda>j. DART_CLASS_REGEX (ls ! j) \<noteq> None) [0..<length ls])"
proof (induction ls arbitrary: i)
  case Nil
  show ?case by simp
next
  case (Cons l ls)
  have tl: "list_all2
     (\<lambda>L j. \<exists>whole name. DART_CLASS_REGEX ((l # ls) ! j) = Some (whole, name)
        \<and> L = \<lparr>lens_line = i + j, lens_start = 0, lens_end = length whole,
                lens_title = u ''$(beaker) Create test file'',
                lens_tooltip = u ''Create test file for '' @ name,
                lens_command = COMMAND_ID,
                lens_arguments = \<lparr>uri = d, className = name\<rparr>\<rparr>)
     (codeLenses_from d (Suc i) ls)
     (map Suc (filter (\<lambda>j. DART_CLASS_REGEX ((l # ls) ! Suc j) \<noteq> None) [0..<length ls]))"
    using Cons.IH [of "Suc i"] by (simp add: list_all2_map2)
  show ?case
    unfolding length_Cons filter_upt_Suc
    using tl by (cases "DART_CLASS_REGEX l") (auto simp del: upt_Suc)
qed

lemma declares_iff:
  "(\<exists>whole name. class_declaration_line l whole name) \<longleftrightarrow> DART_CLASS_REGEX l \<noteq> None"
  using dart_regex_iff [of l] by (cases "DART_CLASS_REGEX l") auto

text \<open>
  C4: a line matches \<open>DART_CLASS_REGEX\<close>, with \<open>whole\<close> as the matched text and
  \<open>name\<close> as the class name, exactly when it begins with optional white space, then
  modifier keywords (\<open>abstract\<close>, \<open>base\<close>, \<open>interface\<close>, \<open>final\<close>,
  \<open>sealed\<close>, \<open>mixin\<close>, in any number and order) each followed by white space,
  then \<open>class\<close>, white space, and the identifier \<open>name\<close> (an ASCII letter or
  underscore, then letters, digits and underscores, as far as they go).

  The lines of a document are what its line terminators separate: a text without a line
  feed is one line; a line ends at a carriage return followed by a line feed, or at a line
  feed alone, and the rest of the text gives the other lines.  So lines joined by
  \<open>CR LF\<close>, or by \<open>LF\<close> when none of them ends in a carriage return, are split
  into themselves.

  The lenses of a document are, in this order and with nothing else, one for each line of
  that shape, by increasing line number: at that line, from column 0 to the end of the
  matched text, with the class name as argument.  A line whose identifier would start with
  a digit, and a line without \<open>class\<close>, do not match.
\<close>
theorem class_matcher_exact:
  "(DART_CLASS_REGEX line = Some (whole, name) \<longleftrightarrow> class_declaration_line line whole name)
   \<and> (LF \<notin> set l \<longrightarrow>
        split_lines l = [l]
        \<and> split_lines (l @ CR # LF # after) = l # split_lines after
        \<and> (l = [] \<or> last l \<noteq> CR \<longrightarrow> split_lines (l @ LF # after) = l # split_lines after))
   \<and> (ls \<noteq> [] \<and> (\<forall>x\<in>set ls. LF \<notin> set x) \<longrightarrow>
        split_lines (join_str [CR, LF] ls) = ls
        \<and> ((\<forall>x\<in>set (butlast ls). x = [] \<or> last x \<noteq> CR) \<longrightarrow>
              split_lines (join_str [LF] ls) = ls))
   \<and> list_all2
        (\<lambda>L j. \<exists>whole name. class_declaration_line (split_lines text ! j) whole name
           \<and> L = \<lparr>lens_line = j, lens_start = 0, lens_end = length whole,
                   lens_title = u ''$(beaker) Create test file'',
                   lens_tooltip = u ''Create test file for '' @ name,
                   lens_command = COMMAND_ID,
                   lens_arguments = \<lparr>uri = d, className = name\<rparr>\<rparr>)
        (provideCodeLenses d text)
        (filter (\<lambda>j. \<exists>whole name. class_declaration_line (split_lines text ! j) whole name)
           [0..<length (split_lines text)])
   \<and> (L \<in> set (provideCodeLenses d text) \<longleftrightarrow>
        (\<exists>j whole name. j < length (split_lines text)
           \<and> class_declaration_line (split_lines text ! j) whole name
           \<and> L = \<lparr>lens_line = j, lens_start = 0, lens_end = length whole,
                   lens_title = u ''$(beaker) Create test file'',
                   lens_tooltip = u ''Create test file for '' @ name,
                   lens_command = COMMAND_ID,
                   lens_arguments = \<lparr>uri = d, className = name\<rparr>\<rparr>))
   \<and> (list_all is_space ws \<and> modifier_seq mods \<and> ws1 \<noteq> [] \<and> list_all is_space ws1
        \<and> is_digit dg \<longrightarrow>
        DART_CLASS_REGEX (ws @ mods @ u ''class'' @ ws1 @ dg # rest) = None)
   \<and> (\<not> sublist (u ''class'') line \<longrightarrow> DART_CLASS_REGEX line = None)"
proof -
  have a: "DART_CLASS_REGEX line = Some (whole, name) \<longleftrightarrow> class_declaration_line line whole name"
    by (rule dart_regex_iff)
  have b: "LF \<notin> set l \<longrightarrow>
        split_lines l = [l]
        \<and> split_lines (l @ CR # LF # after) = l # split_lines after
        \<and> (l = [] \<or> last l \<noteq> CR \<longrightarrow> split_lines (l @ LF # after) = l # split_lines after)"
    using split_lines_no_LF [of l] split_lines_CRLF [of l after] split_lines_LF [of l after]
    by blast
  have c: "ls \<noteq> [] \<and> (\<forall>x\<in>set ls. LF \<notin> set x) \<longrightarrow>
        split_lines (join_str [CR, LF] ls) = ls
        \<and> ((\<forall>x\<in>set (butlast ls). x = [] \<or> last x \<noteq> CR) \<longrightarrow>
              split_lines (join_str [LF] ls) = ls)"
    using split_lines_join_CRLF [of ls] split_lines_join_LF [of ls] by blast
  have d: "list_all2
        (\<lambda>L j. \<exists>whole name. class_declaration_line (split_lines text ! j) whole name
           \<and> L = \<lparr>lens_line = j, lens_start = 0, lens_end = length whole,
                   lens_title = u ''$(beaker) Create test file'',
                   lens_tooltip = u ''Create test file for '' @ name,
                   lens_command = COMMAND_ID,
                   lens_arguments = \<lparr>uri = d, className = name\<rparr>\<rparr>)
        (provideCodeLenses d text)
        (filter (\<lambda>j. \<exists>whole name. class_declaration_line (split_lines text ! j) whole name)
           [0..<length (split_lines text)])"
    using lens_list [of "split_lines text" 0 d]
    unfolding provideCodeLenses_def declares_iff dart_regex_iff by simp
  have e: "L \<in> set (provideCodeLenses d text) \<longleftrightarrow>
        (\<exists>j whole name. j < length (split_lines text)
           \<and> class_declaration_line (split_lines text ! j) whole name
           \<and> L = \<lparr>lens_line = j, lens_start = 0, lens_end = length whole,
                   lens_title = u ''$(beaker) Create test file'',
                   lens_tooltip = u ''Create test file for '' @ name,
                   lens_command = COMMAND_ID,
                   lens_arguments = \<lparr>uri = d, className = name\<rparr>\<rparr>)"
    unfolding provideCodeLenses_def codeLenses_from_iff dart_regex_iff by simp
  have f: "list_all is_space ws \<and> modifier_seq mods \<and> ws1 \<noteq> [] \<and> list_all is_space ws1
        \<and> is_digit dg \<longrightarrow>
        DART_CLASS_REGEX (ws @ mods @ u ''class'' @ ws1 @ dg # rest) = None"
    using dart_regex_digit by blast
  have g: "\<not> sublist (u ''class'') line \<longrightarrow> DART_CLASS_REGEX line = None"
    using dart_regex_needs_class by blast
  from a b c d e f g show ?thesis by (intro conjI)
qed

theorem class_matcher_exact_witness:
  "class_declaration_line (u ''  abstract base class Foo_1 extends Bar {'')
      (u ''  abstract base class Foo_1'') (u ''Foo_1'')
   \<and> split_lines (u ''// models'' @ CR # LF # u ''abstract class Foo {'' @ LF # u ''}'' @ CR # LF
        # u ''  final class B_2 extends Foo {}'')
      = [u ''// models'', u ''abstract class Foo {'', u ''}'', u ''  final class B_2 extends Foo {}'']
   \<and> split_lines (join_str [CR, LF] [u ''class A {}'', [], u ''class B {}''])
      = [u ''class A {}'', [], u ''class B {}'']
   \<and> split_lines (join_str [LF] [u ''class A {}'', [], u ''class B {}''])
      = [u ''class A {}'', [], u ''class B {}'']
   \<and> provideCodeLenses (u ''file:///proj/lib/foo.dart'')
        (u ''// models'' @ CR # LF # u ''abstract class Foo {'' @ LF # u ''}'' @ CR # LF
          # u ''  final class B_2 extends Foo {}'')
      = [\<lparr>lens_line = 1, lens_start = 0, lens_end = 18,
           lens_title = u ''$(beaker) Create test file'',
           lens_tooltip = u ''Create test file for Foo'',
           lens_command = COMMAND_ID,
           lens_arguments = \<lparr>uri = u ''file:///proj/lib/foo.dart'', className = u ''Foo''\<rparr>\<rparr>,
         \<lparr>lens_line = 3, lens_start = 0, lens_end = 17,
           lens_title = u ''$(beaker) Create test file'',
           lens_tooltip = u ''Create test file for B_2'',
           lens_command = COMMAND_ID,
           lens_arguments = \<lparr>uri = u ''file:///proj/lib/foo.dart'', className = u ''B_2''\<rparr>\<rparr>]
   \<and> DART_CLASS_REGEX (u ''class 1Foo'') = None
   \<and> \<not> sublist (u ''class'') (u ''final Foo {'')
   \<and> DART_CLASS_REGEX (u ''final Foo {'') = None"
proof -
  let ?l0 = "u ''// models''" and ?l1 = "u ''abstract class Foo {''" and ?l2 = "u ''}''"
    and ?l3 = "u ''  final class B_2 extends Foo {}''"
  let ?T = "?l0 @ CR # LF # ?l1 @ LF # ?l2 @ CR # LF # ?l3"
  let ?D = "u ''file:///proj/lib/foo.dart''"
  have ev: "DART_CLASS_REGEX (u ''  abstract base class Foo_1 extends Bar {'')
      = Some (u ''  abstract base class Foo_1'', u ''Foo_1'')"
    by code_simp
  have a: "class_declaration_line (u ''  abstract base class Foo_1 extends Bar {'')
      (u ''  abstract base class Foo_1'') (u ''Foo_1'')"
    using class_matcher_exact [of "u ''  abstract base class Foo_1 extends Bar {''"
        "u ''  abstract base class Foo_1''" "u ''Foo_1''"] ev
    by blast
  have n0: "LF \<notin> set ?l0" and n1: "LF \<notin> set ?l1" "?l1 = [] \<or> last ?l1 \<noteq> CR"
    and n2: "LF \<notin> set ?l2" and n3: "LF \<notin> set ?l3"
    by (simp_all add: u_def LF_def CR_def)
  have s3: "split_lines ?l3 = [?l3]"
    using class_matcher_exact [where l = ?l3] n3 by blast
  have s2: "split_lines (?l2 @ CR # LF # ?l3) = ?l2 # split_lines ?l3"
    using class_matcher_exact [where l = ?l2 and after = ?l3] n2 by blast
  have s1: "split_lines (?l1 @ LF # ?l2 @ CR # LF # ?l3)
      = ?l1 # split_lines (?l2 @ CR # LF # ?l3)"
    using class_matcher_exact [where l = ?l1 and after = "?l2 @ CR # LF # ?l3"] n1 by blast
  have s0: "split_lines ?T = ?l0 # split_lines (?l1 @ LF # ?l2 @ CR # LF # ?l3)"
    using class_matcher_exact [where l = ?l0 and after = "?l1 @ LF # ?l2 @ CR # LF # ?l3"] n0
    by blast
  have b: "split_lines ?T = [?l0, ?l1, ?l2, ?l3]"
    unfolding s0 s1 s2 s3 ..
  let ?ls = "[u ''class A {}'', [], u ''class B {}'']"
  have h: "?ls \<noteq> [] \<and> (\<forall>x\<in>set ?ls. LF \<notin> set x)"
    "\<forall>x\<in>set (butlast ?ls). x = [] \<or> last x \<noteq> CR"
    by (simp_all add: u_def LF_def CR_def)
  have c1: "split_lines (join_str [CR, LF] ?ls) = ?ls"
    using class_matcher_exact [where ls = ?ls] h by blast
  have c2: "split_lines (join_str [LF] ?ls) = ?ls"
    using class_matcher_exact [where ls = ?ls] h by blast
  have e0: "DART_CLASS_REGEX ?l0 = None" by code_simp
  have e1: "DART_CLASS_REGEX ?l1 = Some (u ''abstract class Foo'', u ''Foo'')" by code_simp
  have e2: "DART_CLASS_REGEX ?l2 = None" by code_simp
  have e3: "DART_CLASS_REGEX ?l3 = Some (u ''  final class B_2'', u ''B_2'')" by code_simp
  have q: "class_declaration_line x w n \<longleftrightarrow> DART_CLASS_REGEX x = Some (w, n)" for x w n
    using class_matcher_exact [of x w n] by blast
  have sites: "filter (\<lambda>j. \<exists>whole name. class_declaration_line (split_lines ?T ! j) whole name)
           [0..<length (split_lines ?T)] = [1, 3]"
    unfolding b q by (simp add: e0 e1 e2 e3 upt_rec_numeral)
  have "list_all2
        (\<lambda>L j. \<exists>whole name. class_declaration_line (split_lines ?T ! j) whole name
           \<and> L = \<lparr>lens_line = j, lens_start = 0, lens_end = length whole,
                   lens_title = u ''$(beaker) Create test file'',
                   lens_tooltip = u ''Create test file for '' @ name,
                   lens_command = COMMAND_ID,
                   lens_arguments = \<lparr>uri = ?D, className = name\<rparr>\<rparr>)
        (provideCodeLenses ?D ?T)
        (filter (\<lambda>j. \<exists>whole name. class_declaration_line (split_lines ?T ! j) whole name)
           [0..<length (split_lines ?T)])"
    using class_matcher_exact [of _ _ _ _ _ _ ?T ?D] by blast
  then have d: "provideCodeLenses ?D ?T
      = [\<lparr>lens_line = 1, lens_start = 0, lens_end = 18,
           lens_title = u ''$(beaker) Create test file'',
           lens_tooltip = u ''Create test file for Foo'',
           lens_command = COMMAND_ID,
           lens_arguments = \<lparr>uri = ?D, className = u ''Foo''\<rparr>\<rparr>,
         \<lparr>lens_line = 3, lens_start = 0, lens_end = 17,
           lens_title = u ''$(beaker) Create test file'',
           lens_tooltip = u ''Create test file for B_2'',
           lens_command = COMMAND_ID,
           lens_arguments = \<lparr>uri = ?D, className = u ''B_2''\<rparr>\<rparr>]"
    unfolding sites unfolding b q
    by (clarsimp simp: list_all2_Cons2 e1 e3) (simp add: u_def)
  have hd: "list_all is_space [] \<and> modifier_seq [] \<and> u '' '' \<noteq> [] \<and> list_all is_space (u '' '')
      \<and> is_digit 0x31"
    using ms_Nil by (simp add: u_def char_defs)
  have "DART_CLASS_REGEX ([] @ [] @ u ''class'' @ u '' '' @ 0x31 # u ''Foo'') = None"
    using class_matcher_exact [where ws = "[]" and mods = "[]" and ?ws1.0 = "u '' ''"
        and dg = "0x31" and rest = "u ''Foo''"] hd
    by blast
  then have f: "DART_CLASS_REGEX (u ''class 1Foo'') = None"
    by (simp add: u_def)
  have g: "\<not> sublist (u ''class'') (u ''final Foo {'')"
    by (simp add: u_def sublist_code)
  have i: "DART_CLASS_REGEX (u ''final Foo {'') = None"
    using class_matcher_exact [of "u ''final Foo {''"] g by blast
  from a b c1 c2 d f g i show ?thesis
    unfolding join_str.simps append_Cons append_Nil by (intro conjI)
qed

subsection \<open>The name regular expression at one position\<close>

lemma run_set: "set (run r k s) = (\<Union>x\<in>set (rmatch r s). set (k x))"
  by (simp add: run_def del: rmatch.simps)

lemma star_cls_reaches: "list_all f w \<Longrightarrow> x \<in> set (rmatch (Star (Cls f)) (w @ x))"
proof (induction w)
  case Nil
  have "rmatch (Star (Cls f)) x =
      concat (map (\<lambda>s'. if length s' < length x then rmatch (Star (Cls f)) s' else [])
        (rmatch (Cls f) x)) @ [x]"
    by (rule rmatch.simps(5))
  then show ?case by (simp del: rmatch.simps)
next
  case (Cons c w)
  have "rmatch (Star (Cls f)) (c # w @ x) =
      concat (map (\<lambda>s'. if length s' < length (c # w @ x) then rmatch (Star (Cls f)) s' else [])
        (rmatch (Cls f) (c # w @ x))) @ [c # w @ x]"
    by (rule rmatch.simps(5))
  also have "rmatch (Cls f) (c # w @ x) = [w @ x]" using Cons.prems by simp
  finally show ?case using Cons by (simp del: rmatch.simps)
qed

lemma name_char_not_terminator: "name_char c \<Longrightarrow> \<not> is_line_terminator c"
  using space_not_name_char line_terminator_space by blast

lemma run_name_post_name_char:
  "name_char c \<Longrightarrow> run name_post k (c # cs) = []"
proof -
  assume n: "name_char c"
  then have "\<not> is_space c" using space_not_name_char by blast
  then have "run name_post k (c # cs) = run (Eol True) k (c # cs)"
    by (simp add: run_Seq run_Star_Cls_Cons)
  also have "\<dots> = []"
    using name_char_not_terminator [OF n] by (simp add: run_Eol)
  finally show ?thesis .
qed

lemma run_name_grp_Nil: "run name_grp k [] = []"
  by (simp add: run_Seq run_Cls_Nil)

lemma run_name_grp_other: "\<not> name_start c \<Longrightarrow> run name_grp k (c # cs) = []"
  by (simp add: run_Seq run_Cls_Cons)

lemma name_match_here:
  assumes "name_entry s name"
  shows "\<exists>whole t. rmatch_group name_pre name_grp name_post s = (whole, name) # t"
proof -
  from assms obtain ws ws' rest where d:
    "s = u ''name:'' @ ws @ name @ ws' @ rest" "list_all is_space ws"
    "is_package_identifier name" "list_all is_space ws'"
    "list_all is_line_terminator (take 1 rest)"
    unfolding name_entry_def by blast
  from d(3) obtain c n where n: "name = c # n" "name_start c" "list_all name_char n"
    by (cases name) (auto simp: is_package_identifier_def)
  let ?y = "ws' @ rest" and ?x = "name @ ws' @ rest"
  let ?K = "\<lambda>a. run name_grp (\<lambda>b. run name_post (\<lambda>c. [(captured s c, captured a b)]) b) a"
  let ?kb = "\<lambda>b. run name_post (\<lambda>c. [(captured s c, captured ?x b)]) b"
  have K: "\<And>c cs. is_space c \<Longrightarrow> ?K (c # cs) = []"
    using space_not_name_char name_start_char run_name_grp_other by blast
  have kb: "\<And>c cs. name_char c \<Longrightarrow> ?kb (c # cs) = []"
    by (rule run_name_post_name_char)
  have x_nsp: "list_all (\<lambda>c. \<not> is_space c) (take 1 ?x)"
    using n space_not_name_char name_start_char by auto
  have y_nn: "list_all (\<lambda>c. \<not> name_char c) (take 1 ?y)"
  proof (cases ws')
    case Nil
    with d(5) name_char_not_terminator show ?thesis by (cases rest) auto
  next
    case (Cons a as)
    with d(4) space_not_name_char show ?thesis by auto
  qed
  have "rmatch_group name_pre name_grp name_post s = run name_pre ?K s"
    by (rule rmatch_group_run)
  also have "\<dots> = run (Star (Cls is_space)) ?K (ws @ ?x)"
    unfolding run_Seq [of "Lit (u ''name:'')"] by (simp add: run_Lit d(1))
  also have "\<dots> = ?K (dropWhile is_space (ws @ ?x))"
    by (rule star_cls_skip [of is_space ?K, OF K])
  also have "dropWhile is_space (ws @ ?x) = ?x"
    by (rule dropWhile_all_append [OF d(2) x_nsp])
  also have "?K ?x = run (Star (Cls name_char)) ?kb (n @ ?y)"
    using n by (simp add: run_Seq [of "Cls name_start"] run_Cls_Cons)
  also have "\<dots> = ?kb (dropWhile name_char (n @ ?y))"
    by (rule star_cls_skip [of name_char ?kb, OF kb])
  also have "dropWhile name_char (n @ ?y) = ?y"
    by (rule dropWhile_all_append [OF n(3) y_nn])
  finally have eq: "rmatch_group name_pre name_grp name_post s = ?kb ?y" .
  have cap: "captured ?x ?y = name" by (simp add: captured_def)
  have reach: "rest \<in> set (rmatch (Star (Cls is_space)) (ws' @ rest))"
    by (rule star_cls_reaches [OF d(4)])
  have "run (Eol True) (\<lambda>c. [(captured s c, name)]) rest = [(captured s rest, name)]"
    using d(5) by (cases rest) (simp_all add: run_Eol)
  then have "(captured s rest, name) \<in> set (run (Eol True) (\<lambda>c. [(captured s c, name)]) rest)"
    by simp
  then have "\<exists>x\<in>set (rmatch (Star (Cls is_space)) (ws' @ rest)).
      (captured s rest, name) \<in> set (run (Eol True) (\<lambda>c. [(captured s c, name)]) x)"
    using reach by (rule bexI)
  then have "(captured s rest, name) \<in> set (?kb ?y)"
    unfolding cap run_Seq [of "Star (Cls is_space)"] run_set [of "Star (Cls is_space)"]
    by (simp del: rmatch.simps)
  then have ne: "?kb ?y \<noteq> []" by auto
  have "\<forall>e\<in>set (?kb ?y). snd e = name"
    unfolding cap by (auto simp: run_set simp del: rmatch.simps)
  with ne obtain whole t where "?kb ?y = (whole, name) # t"
    by (cases "?kb ?y") auto
  with eq show ?thesis by simp
qed

lemma name_match_sound:
  assumes "rmatch_group name_pre name_grp name_post s \<noteq> []"
  shows "\<exists>name. name_entry s name"
proof -
  from assms obtain a b c where abc: "a \<in> set (rmatch name_pre s)" "b \<in> set (rmatch name_grp a)"
    "c \<in> set (rmatch name_post b)"
    unfolding rmatch_group_def by (fastforce simp del: rmatch.simps)
  from rmatch_sound [OF abc(1)] obtain p1 where p1: "s = p1 @ a" "matches name_pre p1 a" by blast
  from rmatch_sound [OF abc(2)] obtain p2 where p2: "a = p2 @ b" "matches name_grp p2 b" by blast
  from rmatch_sound [OF abc(3)] obtain p3 where p3: "b = p3 @ c" "matches name_post p3 c" by blast
  from p1(2) obtain ws where ws: "p1 = u ''name:'' @ ws" "matches (Star (Cls is_space)) ws a"
    by (auto elim!: matches_SeqE matches_LitE)
  from p2(2) obtain c0 n where n: "p2 = c0 # n" "name_start c0" "matches (Star (Cls name_char)) n b"
    by (auto elim!: matches_SeqE matches_ClsE)
  from p3(2) have post: "matches (Star (Cls is_space)) p3 c" "c = [] \<or> is_line_terminator (hd c)"
    by (auto elim!: matches_SeqE matches_EolE)
  have "list_all is_space ws" using ws(2) matches_star_cls by blast
  moreover have "is_package_identifier p2"
    using n matches_star_cls [of _ n b name_char] by (simp add: is_package_identifier_def)
  moreover have "list_all is_space p3" using post(1) matches_star_cls by blast
  moreover have "list_all is_line_terminator (take 1 c)" using post(2) by (cases c) auto
  moreover have "s = u ''name:'' @ ws @ p2 @ p3 @ c" using p1(1) p2(1) p3(1) ws(1) by simp
  ultimately have "name_entry s p2" unfolding name_entry_def by blast
  then show ?thesis ..
qed

lemma prev_at_Nil: "prev_at prev [] = prev"
  by (simp add: prev_at_def)

lemma prev_at_Cons: "prev_at prev (c # a) = prev_at (Some c) a"
  by (simp add: prev_at_def)

lemma exec_from_first:
  "exec_from anc pre grp post prev s = Some m \<longleftrightarrow>
     (\<exists>a b. s = a @ b \<and> anchor_ok anc (prev_at prev a)
        \<and> (\<exists>t. rmatch_group pre grp post b = m # t)
        \<and> (\<forall>a' b'. s = a' @ b' \<and> length a' < length a \<and> anchor_ok anc (prev_at prev a')
              \<longrightarrow> rmatch_group pre grp post b' = []))"
  (is "?exec prev s \<longleftrightarrow> ?spec prev s")
proof (induction s arbitrary: prev)
  case Nil
  let ?here = "if anchor_ok anc prev then rmatch_group pre grp post [] else []"
  have e: "exec_from anc pre grp post prev [] = (case ?here of [] \<Rightarrow> None | m0 # _ \<Rightarrow> Some m0)"
    by (subst exec_from.simps) (simp split: list.splits)
  have "?spec prev [] \<longleftrightarrow> (anchor_ok anc prev \<and> (\<exists>t. rmatch_group pre grp post [] = m # t))"
    by (simp add: prev_at_Nil)
  then show ?case unfolding e by (auto split: list.splits)
next
  case (Cons c cs)
  let ?M = "rmatch_group pre grp post"
  let ?here = "if anchor_ok anc prev then ?M (c # cs) else []"
  show ?case
  proof (cases ?here)
    case (Cons m0 t0)
    then have ok: "anchor_ok anc prev" and M: "?M (c # cs) = m0 # t0"
      by (auto split: if_splits)
    have e: "exec_from anc pre grp post prev (c # cs) = Some m0"
      by (subst exec_from.simps) (simp add: ok M)
    have "?spec prev (c # cs) \<longleftrightarrow> m = m0"
    proof
      assume "?spec prev (c # cs)"
      then obtain a b t where ab: "c # cs = a @ b" "?M b = m # t"
        and least: "\<forall>a' b'. c # cs = a' @ b' \<and> length a' < length a
              \<and> anchor_ok anc (prev_at prev a') \<longrightarrow> ?M b' = []"
        by blast
      have "a = []"
      proof (rule ccontr)
        assume "a \<noteq> []"
        then have "length ([] :: jsstring) < length a" by simp
        with least [rule_format, of "[]" "c # cs"] ok have "?M (c # cs) = []"
          by (simp add: prev_at_Nil)
        with M show False by simp
      qed
      with ab M show "m = m0" by simp
    next
      assume "m = m0"
      then have "c # cs = [] @ (c # cs) \<and> anchor_ok anc (prev_at prev [])
        \<and> (\<exists>t. ?M (c # cs) = m # t)
        \<and> (\<forall>a' b'. c # cs = a' @ b' \<and> length a' < length ([] :: jsstring)
              \<and> anchor_ok anc (prev_at prev a') \<longrightarrow> ?M b' = [])"
        using ok M by (simp add: prev_at_Nil)
      then show "?spec prev (c # cs)" by blast
    qed
    with e show ?thesis by auto
  next
    case Nil
    then have none: "anchor_ok anc prev \<longrightarrow> ?M (c # cs) = []" by (auto split: if_splits)
    have e: "exec_from anc pre grp post prev (c # cs) = exec_from anc pre grp post (Some c) cs"
      by (subst exec_from.simps) (simp add: Nil)
    have "?spec prev (c # cs) \<longleftrightarrow> ?spec (Some c) cs"
    proof
      assume "?spec prev (c # cs)"
      then obtain a b t where ab: "c # cs = a @ b" "anchor_ok anc (prev_at prev a)"
        "?M b = m # t"
        and least: "\<forall>a' b'. c # cs = a' @ b' \<and> length a' < length a
              \<and> anchor_ok anc (prev_at prev a') \<longrightarrow> ?M b' = []"
        by blast
      have "a \<noteq> []"
      proof
        assume "a = []"
        with ab none show False by (simp add: prev_at_Nil)
      qed
      with ab(1) obtain a2 where a2: "a = c # a2" "cs = a2 @ b" by (cases a) auto
      have "\<forall>a' b'. cs = a' @ b' \<and> length a' < length a2
              \<and> anchor_ok anc (prev_at (Some c) a') \<longrightarrow> ?M b' = []"
      proof (intro allI impI)
        fix a' b'
        assume h: "cs = a' @ b' \<and> length a' < length a2 \<and> anchor_ok anc (prev_at (Some c) a')"
        then have "c # cs = (c # a') @ b' \<and> length (c # a') < length a
            \<and> anchor_ok anc (prev_at prev (c # a'))"
          using a2 by (simp add: prev_at_Cons)
        with least show "?M b' = []" by blast
      qed
      with a2 ab(2,3) show "?spec (Some c) cs"
        by (auto simp: prev_at_Cons)
    next
      assume "?spec (Some c) cs"
      then obtain a b t where ab: "cs = a @ b" "anchor_ok anc (prev_at (Some c) a)"
        "?M b = m # t"
        and least: "\<forall>a' b'. cs = a' @ b' \<and> length a' < length a
              \<and> anchor_ok anc (prev_at (Some c) a') \<longrightarrow> ?M b' = []"
        by blast
      have "\<forall>a' b'. c # cs = a' @ b' \<and> length a' < length (c # a)
              \<and> anchor_ok anc (prev_at prev a') \<longrightarrow> ?M b' = []"
      proof (intro allI impI)
        fix a' b'
        assume h: "c # cs = a' @ b' \<and> length a' < length (c # a)
            \<and> anchor_ok anc (prev_at prev a')"
        show "?M b' = []"
        proof (cases a')
          case Nil
          with h none show ?thesis by (simp add: prev_at_Nil)
        next
          case (Cons x a'')
          with h have "cs = a'' @ b' \<and> length a'' < length a
              \<and> anchor_ok anc (prev_at (Some c) a'')"
            by (auto simp: prev_at_Cons)
          with least show ?thesis by blast
        qed
      qed
      moreover have "c # cs = (c # a) @ b" "anchor_ok anc (prev_at prev (c # a))"
        using ab by (simp_all add: prev_at_Cons)
      ultimately show "?spec prev (c # cs)" using ab(3) by blast
    qed
    with e Cons.IH [of "Some c"] show ?thesis by simp
  qed
qed

subsection \<open>The name regular expression over a text\<close>

lemma anchor_line_start: "anchor_ok LineStart (prev_at None a) \<longleftrightarrow> at_line_start a"
proof (cases "a = []")
  case True
  then show ?thesis by (simp add: prev_at_def at_line_start_def)
next
  case False
  then obtain ys y where "a = ys @ [y]" by (cases a rule: rev_cases) auto
  then show ?thesis by (simp add: prev_at_def at_line_start_def)
qed

lemma name_match_none: "rmatch_group name_pre name_grp name_post s = [] \<longleftrightarrow> (\<forall>name. \<not> name_entry s name)"
  using name_match_sound [of s] name_match_here [of s] by fastforce

lemma pubspec_regex_iff:
  "(\<exists>whole. PUBSPEC_NAME_REGEX content = Some (whole, name)) \<longleftrightarrow> first_name_entry content name"
proof
  assume "\<exists>whole. PUBSPEC_NAME_REGEX content = Some (whole, name)"
  then obtain whole where "exec_from LineStart name_pre name_grp name_post None content
      = Some (whole, name)"
    unfolding PUBSPEC_NAME_REGEX_def regex_match_def by blast
  then obtain a b t where ab: "content = a @ b" "anchor_ok LineStart (prev_at None a)"
    "rmatch_group name_pre name_grp name_post b = (whole, name) # t"
    and least: "\<forall>a' b'. content = a' @ b' \<and> length a' < length a
        \<and> anchor_ok LineStart (prev_at None a') \<longrightarrow> rmatch_group name_pre name_grp name_post b' = []"
    unfolding exec_from_first by blast
  from ab(3) obtain name' where n': "name_entry b name'"
    using name_match_sound [of b] by auto
  from name_match_here [OF n'] ab(3) have "name' = name" by auto
  with n' have entry: "name_entry b name" by simp
  have "\<forall>before' s' name'. content = before' @ s' \<and> length before' < length a
        \<and> at_line_start before' \<longrightarrow> \<not> name_entry s' name'"
    using least name_match_none unfolding anchor_line_start by blast
  with ab(1,2) entry show "first_name_entry content name"
    unfolding first_name_entry_def anchor_line_start by blast
next
  assume "first_name_entry content name"
  then obtain a b where ab: "content = a @ b" "at_line_start a" "name_entry b name"
    and least: "\<forall>before' s' name'. content = before' @ s' \<and> length before' < length a
        \<and> at_line_start before' \<longrightarrow> \<not> name_entry s' name'"
    unfolding first_name_entry_def by blast
  from name_match_here [OF ab(3)] obtain whole t where
    m: "rmatch_group name_pre name_grp name_post b = (whole, name) # t" by blast
  have "\<forall>a' b'. content = a' @ b' \<and> length a' < length a
        \<and> anchor_ok LineStart (prev_at None a') \<longrightarrow> rmatch_group name_pre name_grp name_post b' = []"
    using least name_match_none unfolding anchor_line_start by blast
  with ab(1,2) m have "exec_from LineStart name_pre name_grp name_post None content
      = Some (whole, name)"
    unfolding exec_from_first anchor_line_start by blast
  then show "\<exists>whole. PUBSPEC_NAME_REGEX content = Some (whole, name)"
    unfolding PUBSPEC_NAME_REGEX_def regex_match_def by blast
qed

lemma getPackageName_value:
  "fst (getPackageName H P fs root) =
     (case fs_readFile H fs (join P [root, u ''pubspec.yaml'']) of
        None \<Rightarrow> None
      | Some bytes \<Rightarrow> map_option snd (PUBSPEC_NAME_REGEX (utf8_decode H bytes)))"
  by (simp add: getPackageName_def Let_def split: option.splits)

lemma getPackageName_iff:
  "fst (getPackageName H P fs root) = Some name \<longleftrightarrow>
     (\<exists>bytes. fs_readFile H fs (join P [root, u ''pubspec.yaml'']) = Some bytes
        \<and> first_name_entry (utf8_decode H bytes) name)"
proof (cases "fs_readFile H fs (join P [root, u ''pubspec.yaml''])")
  case None
  then show ?thesis by (simp add: getPackageName_value)
next
  case (Some bytes)
  have "map_option snd (PUBSPEC_NAME_REGEX (utf8_decode H bytes)) = Some name
      \<longleftrightarrow> (\<exists>whole. PUBSPEC_NAME_REGEX (utf8_decode H bytes) = Some (whole, name))"
    by (cases "PUBSPEC_NAME_REGEX (utf8_decode H bytes)") auto
  then show ?thesis
    using Some pubspec_regex_iff [of "utf8_decode H bytes" name]
    by (simp add: getPackageName_value)
qed

lemma createAndOpenTestFile_events:
  "\<exists>rest. snd (snd (createAndOpenTestFile H P fs tp content root))
      = WriteFile tp (utf8_encode H content) # rest"
  by (simp add: createAndOpenTestFile_def split: prod.splits option.splits)

lemma handle_create:
  assumes "uri_parse_fsPath H (uri args) = Inr sourcePath"
    and "getWorkspaceFolder H (uri args) = Some root"
    and "fst (getPackageName H P fs root) = pkg"
    and "\<not> fs_stat H fs (testPath (handleCreateTestCommand_testFileInfo P root sourcePath pkg))"
  shows "\<exists>rest. snd (handleCreateTestCommand H P args fs) =
     [ReadFile (join P [root, u ''pubspec.yaml'']),
      Stat (testPath (handleCreateTestCommand_testFileInfo P root sourcePath pkg)),
      CreateDirectory
        (dirname P (testPath (handleCreateTestCommand_testFileInfo P root sourcePath pkg))),
      WriteFile (testPath (handleCreateTestCommand_testFileInfo P root sourcePath pkg))
        (utf8_encode H (generateTestContent (className args)
           (importPath (handleCreateTestCommand_testFileInfo P root sourcePath pkg))))] @ rest"
proof -
  let ?tfi = "handleCreateTestCommand_testFileInfo P root sourcePath pkg"
  let ?tp = "testPath ?tfi"
  let ?content = "generateTestContent (className args) (importPath ?tfi)"
  obtain ev1 where g: "getPackageName H P fs root = (pkg, ev1)"
    using assms(3) by (cases "getPackageName H P fs root") auto
  have ev1: "ev1 = [ReadFile (join P [root, u ''pubspec.yaml''])]"
    using getPackageName_events [of H P fs root] g by simp
  obtain fs2 err ev4 where c: "createAndOpenTestFile H P (fs_createDirectory H fs (dirname P ?tp))
      ?tp ?content root = (fs2, err, ev4)"
    by (cases "createAndOpenTestFile H P (fs_createDirectory H fs (dirname P ?tp)) ?tp ?content root")
       auto
  obtain rest where rest: "ev4 = WriteFile ?tp (utf8_encode H ?content) # rest"
    using createAndOpenTestFile_events [of H P "fs_createDirectory H fs (dirname P ?tp)" ?tp
        ?content root] c by auto
  have "snd (handleCreateTestCommand H P args fs) =
      ev1 @ [Stat ?tp] @ [CreateDirectory (dirname P ?tp)] @ ev4
        @ (case err of None \<Rightarrow> [] | Some e \<Rightarrow> report_failure e)"
    using assms(4)
    by (cases err)
       (simp_all add: handleCreateTestCommand_def Let_def assms(1) assms(2) g fileExists_def
          ensureDirectoryExists_def c)
  then show ?thesis unfolding ev1 rest by simp
qed

text \<open>
  C8, as amended: \<open>getPackageName\<close> returns the identifier \<open>name\<close> exactly when
  the manifest can be read and \<open>name\<close> is the identifier of its first name entry at the
  start of a line: \<open>name:\<close>, optional white space, which may run over line breaks,
  an identifier of lowercase letters, digits and underscores that starts with a lowercase
  letter or an underscore, and optional white space up to the end of a line or of the
  text.  When the manifest cannot be read it returns \<open>null\<close>, and it never raises.
  When it returns \<open>null\<close> and the test file does not exist, the orchestrator goes on:
  it creates the directory and writes the content generated with the import path derived
  without a package name, the relative one for a source under \<open>lib\<close>.
\<close>
theorem package_name_resolution:
  "(fst (getPackageName H P fs root) = Some name \<longleftrightarrow>
      (\<exists>bytes. fs_readFile H fs (join P [root, u ''pubspec.yaml'']) = Some bytes
         \<and> first_name_entry (utf8_decode H bytes) name))
   \<and> (fs_readFile H fs (join P [root, u ''pubspec.yaml'']) = None \<longrightarrow>
        fst (getPackageName H P fs root) = None)
   \<and> (uri_parse_fsPath H (uri args) = Inr sourcePath
        \<and> getWorkspaceFolder H (uri args) = Some root
        \<and> fst (getPackageName H P fs root) = None
        \<and> \<not> fs_stat H fs (testPath (handleCreateTestCommand_testFileInfo P root sourcePath None))
        \<longrightarrow>
        (\<exists>rest. snd (handleCreateTestCommand H P args fs) =
           [ReadFile (join P [root, u ''pubspec.yaml'']),
            Stat (testPath (handleCreateTestCommand_testFileInfo P root sourcePath None)),
            CreateDirectory
              (dirname P (testPath (handleCreateTestCommand_testFileInfo P root sourcePath None))),
            WriteFile (testPath (handleCreateTestCommand_testFileInfo P root sourcePath None))
              (utf8_encode H (generateTestContent (className args)
                 (importPath (handleCreateTestCommand_testFileInfo P root sourcePath None))))]
           @ rest))"
proof (intro conjI impI)
  show "fst (getPackageName H P fs root) = Some name \<longleftrightarrow>
      (\<exists>bytes. fs_readFile H fs (join P [root, u ''pubspec.yaml'']) = Some bytes
         \<and> first_name_entry (utf8_decode H bytes) name)"
    by (rule getPackageName_iff)
next
  assume "fs_readFile H fs (join P [root, u ''pubspec.yaml'']) = None"
  then show "fst (getPackageName H P fs root) = None"
    by (simp add: getPackageName_value)
next
  assume "uri_parse_fsPath H (uri args) = Inr sourcePath
        \<and> getWorkspaceFolder H (uri args) = Some root
        \<and> fst (getPackageName H P fs root) = None
        \<and> \<not> fs_stat H fs (testPath (handleCreateTestCommand_testFileInfo P root sourcePath None))"
  then show "\<exists>rest. snd (handleCreateTestCommand H P args fs) =
           [ReadFile (join P [root, u ''pubspec.yaml'']),
            Stat (testPath (handleCreateTestCommand_testFileInfo P root sourcePath None)),
            CreateDirectory
              (dirname P (testPath (handleCreateTestCommand_testFileInfo P root sourcePath None))),
            WriteFile (testPath (handleCreateTestCommand_testFileInfo P root sourcePath None))
              (utf8_encode H (generateTestContent (className args)
                 (importPath (handleCreateTestCommand_testFileInfo P root sourcePath None))))]
           @ rest"
    using handle_create [of H args sourcePath root P fs None] by blast
qed

lemma pubspec_join: "posix_join [u ''/proj'', u ''pubspec.yaml''] = u ''/proj/pubspec.yaml''"
  by (simp add: norm_eval str_eval)

lemma mem_host_decode: "utf8_decode (mem_host root) = map ucast"
  by (simp add: mem_host_def)

theorem package_name_resolution_witness:
  "first_name_entry (u ''name: my_app'' @ [LF] @ u ''version: 1.0.0'' @ [LF]) (u ''my_app'')
   \<and> fs_readFile (mem_host (u ''/proj'')) []
        (join (posix (u ''/'')) [u ''/proj'', u ''pubspec.yaml'']) = None
   \<and> fst (getPackageName (mem_host (u ''/proj'')) (posix (u ''/'')) [] (u ''/proj'')) = None
   \<and> (\<exists>rest. snd (handleCreateTestCommand (mem_host (u ''/proj'')) (posix (u ''/''))
          \<lparr>uri = u ''file:///proj/lib/models/user.dart'', className = u ''User''\<rparr> []) =
        [ReadFile (u ''/proj/pubspec.yaml''),
         Stat (u ''/proj/test/models/user_test.dart''),
         CreateDirectory (u ''/proj/test/models''),
         WriteFile (u ''/proj/test/models/user_test.dart'')
           (utf8_encode (mem_host (u ''/proj''))
              (generateTestContent (u ''User'') (u ''../../lib/models/user.dart'')))] @ rest)"
proof -
  let ?H = "mem_host (u ''/proj'')" and ?P = "posix (u ''/'')"
  let ?args = "\<lparr>uri = u ''file:///proj/lib/models/user.dart'', className = u ''User''\<rparr>"
  let ?bytes = "ascii ''name: my_app'' @ [0x0A] @ ascii ''version: 1.0.0'' @ [0x0A]"
  let ?fs = "[(u ''/proj/pubspec.yaml'', ?bytes)]"
  have read: "fs_readFile ?H ?fs (join ?P [u ''/proj'', u ''pubspec.yaml'']) = Some ?bytes"
    by (simp add: posix_sel pubspec_join mem_host_sel)
  have dec: "utf8_decode ?H ?bytes = u ''name: my_app'' @ [LF] @ u ''version: 1.0.0'' @ [LF]"
    by (simp add: mem_host_decode ascii_def u_def LF_def)
  have re: "PUBSPEC_NAME_REGEX (u ''name: my_app'' @ [LF] @ u ''version: 1.0.0'' @ [LF])
      = Some (u ''name: my_app'', u ''my_app'')"
    by code_simp
  have "fst (getPackageName ?H ?P ?fs (u ''/proj'')) = Some (u ''my_app'')"
    by (simp only: getPackageName_value read option.case dec re option.map snd_conv)
  with package_name_resolution [of ?H ?P ?fs "u ''/proj''" "u ''my_app''"] read
  have "first_name_entry (utf8_decode ?H ?bytes) (u ''my_app'')"
    by auto
  then have a: "first_name_entry (u ''name: my_app'' @ [LF] @ u ''version: 1.0.0'' @ [LF])
      (u ''my_app'')"
    unfolding dec .
  have b: "fs_readFile ?H [] (join ?P [u ''/proj'', u ''pubspec.yaml'']) = None"
    by (simp add: mem_host_sel)
  with package_name_resolution [of ?H ?P "[]" "u ''/proj''"]
  have c: "fst (getPackageName ?H ?P [] (u ''/proj'')) = None"
    by blast
  have cwd: "u ''/'' \<noteq> []" "hd (u ''/'') = SLASH"
    by (simp_all add: u_def SLASH_def)
  have tfi: "handleCreateTestCommand_testFileInfo ?P (u ''/proj'')
      (u ''/proj/lib/models/user.dart'') None =
      \<lparr>testPath = u ''/proj/test/models/user_test.dart'',
       importPath = u ''../../lib/models/user.dart''\<rparr>"
    unfolding handle_user_dart
    by (intro TestFileInfo_eqI user_dart_testPath user_dart_relative_import [OF cwd])
  have p: "uri_parse_fsPath ?H (uri ?args) = Inr (u ''/proj/lib/models/user.dart'')"
    by (simp add: mem_host_sel u_def)
  have w: "getWorkspaceFolder ?H (uri ?args) = Some (u ''/proj'')"
    by (simp add: mem_host_sel u_def)
  have n: "\<not> fs_stat ?H [] (testPath (handleCreateTestCommand_testFileInfo ?P (u ''/proj'')
      (u ''/proj/lib/models/user.dart'') None))"
    by (simp add: mem_host_sel)
  have dn: "posix_dirname (u ''/proj/test/models/user_test.dart'') = u ''/proj/test/models''"
    by (simp add: posix_dirname_def str_eval)
  from package_name_resolution [of ?H ?P "[]" "u ''/proj''" _ ?args
      "u ''/proj/lib/models/user.dart''"] p w c n
  have "\<exists>rest. snd (handleCreateTestCommand ?H ?P ?args []) =
      [ReadFile (join ?P [u ''/proj'', u ''pubspec.yaml'']),
       Stat (testPath (handleCreateTestCommand_testFileInfo ?P (u ''/proj'')
          (u ''/proj/lib/models/user.dart'') None)),
       CreateDirectory (dirname ?P (testPath (handleCreateTestCommand_testFileInfo ?P (u ''/proj'')
          (u ''/proj/lib/models/user.dart'') None))),
       WriteFile (testPath (handleCreateTestCommand_testFileInfo ?P (u ''/proj'')
          (u ''/proj/lib/models/user.dart'') None))
         (utf8_encode ?H (generateTestContent (className ?args)
            (importPath (handleCreateTestCommand_testFileInfo ?P (u ''/proj'')
               (u ''/proj/lib/models/user.dart'') None))))] @ rest"
    by blast
  then have d: "\<exists>rest. snd (handleCreateTestCommand ?H ?P ?args []) =
        [ReadFile (u ''/proj/pubspec.yaml''),
         Stat (u ''/proj/test/models/user_test.dart''),
         CreateDirectory (u ''/proj/test/models''),
         WriteFile (u ''/proj/test/models/user_test.dart'')
           (utf8_encode ?H (generateTestContent (u ''User'') (u ''../../lib/models/user.dart'')))]
        @ rest"
    unfolding tfi posix_sel pubspec_join by (simp add: dn)
  from a b c d show ?thesis by blast
qed

text \<open>
  C8, as stated, fails: the manifest \<open>name:\<close>, line feed, \<open>  my_app\<close>, line feed
  has no line of the form \<open>name: <identifier>\<close>, and \<open>getPackageName\<close> returns
  \<open>my_app\<close>, because the white space after \<open>name:\<close> may hold the line feed.
\<close>
theorem package_name_over_two_lines:
  "fst (getPackageName (mem_host (u ''/proj'')) (posix (u ''/''))
          [(u ''/proj/pubspec.yaml'', ascii ''name:'' @ [0x0A] @ ascii ''  my_app'' @ [0x0A])]
          (u ''/proj'')) = Some (u ''my_app'')
   \<and> map spec_name_line_identifier
        (spec_manifest_lines (u ''name:'' @ [LF] @ u ''  my_app'' @ [LF])) = [None, None, None]"
proof -
  let ?H = "mem_host (u ''/proj'')" and ?P = "posix (u ''/'')"
  let ?bytes = "ascii ''name:'' @ [0x0A] @ ascii ''  my_app'' @ [0x0A]"
  let ?fs = "[(u ''/proj/pubspec.yaml'', ?bytes)]"
  have read: "fs_readFile ?H ?fs (join ?P [u ''/proj'', u ''pubspec.yaml'']) = Some ?bytes"
    by (simp add: posix_sel pubspec_join mem_host_sel)
  have dec: "utf8_decode ?H ?bytes = u ''name:'' @ [LF] @ u ''  my_app'' @ [LF]"
    by (simp add: mem_host_decode ascii_def u_def LF_def)
  have re: "PUBSPEC_NAME_REGEX (u ''name:'' @ [LF] @ u ''  my_app'' @ [LF])
      = Some (u ''name:'' @ [LF] @ u ''  my_app'' @ [LF], u ''my_app'')"
    by code_simp
  have a: "fst (getPackageName ?H ?P ?fs (u ''/proj'')) = Some (u ''my_app'')"
    by (simp only: getPackageName_value read option.case dec re option.map snd_conv)
  have b: "map spec_name_line_identifier
        (spec_manifest_lines (u ''name:'' @ [LF] @ u ''  my_app'' @ [LF])) = [None, None, None]"
    by code_simp
  from a b show ?thesis by blast
qed

end
